(* ===== verification/Prelude.thy ===== *)
theory Prelude
  imports Complex_Main "HOL-Library.Sublist"
begin

text \<open>
  Shared vocabulary of the dashboard model: the type of column labels, the
  theorem collections the component theories fill, and generic lemmas on
  lists and on real-valued list sums that the statistics and the filter
  proofs use (boolean masks built from a list, sums of filtered counts, and
  the Cauchy--Schwarz inequality for sums over a list).
\<close>

type_synonym label = string

named_theorems frame_simps "evaluation equations of the data-frame operations"
named_theorems stat_simps "evaluation equations of the summary statistics"

section \<open>Boolean masks\<close>

text \<open>
  pandas' boolean indexing \<open>df[mask]\<close> keeps the rows whose mask entry is
  true. When the mask is computed from the rows themselves it is a filter.
\<close>

lemma mask_of_map [simp]:
  "map fst (filter snd (zip xs (map f xs))) = filter f xs"
  by (induction xs) auto

lemma map2_conj_map [simp]:
  "map2 (\<and>) (map f xs) (map g xs) = map (\<lambda>x. f x \<and> g x) xs"
  by (induction xs) auto

lemma length_mask_le:
  "length (map fst (filter snd (zip xs m))) \<le> length xs"
proof -
  have "length (filter snd (zip xs m)) \<le> length (zip xs m)"
    by (rule length_filter_le)
  then show ?thesis by simp
qed

lemma subseq_mask:
  "subseq (map fst (filter snd (zip xs m))) xs"
proof (induction xs arbitrary: m)
  case Nil
  then show ?case by simp
next
  case (Cons x xs)
  then show ?case by (cases m) auto
qed

lemma subseq_set_subset:
  "subseq xs ys \<Longrightarrow> set xs \<subseteq> set ys"
  by (auto elim: list_emb_set)

lemma subseq_distinct:
  "subseq xs ys \<Longrightarrow> distinct ys \<Longrightarrow> distinct xs"
  by (induction rule: list_emb.induct) (auto dest: subseq_set_subset)

lemma set_mask_subset:
  "set (map fst (filter snd (zip xs m))) \<subseteq> set xs"
  by (auto dest: set_zip_leftD)

section \<open>Sums of counts\<close>

lemma sum_list_filter_pos_nat [simp]:
  "(\<Sum>p\<leftarrow>filter (\<lambda>p. 0 < snd p) ps. snd p) = (\<Sum>p\<leftarrow>ps. (snd p :: nat))"
  by (induction ps) auto

section \<open>Real-valued sums over a list\<close>

lemma sum_list_sq_nonneg [simp]:
  "0 \<le> (\<Sum>x\<leftarrow>xs. (f x)\<^sup>2 :: real)"
  by (rule sum_list_nonneg) auto

lemma sum_list_sq_eq_0:
  "(\<Sum>x\<leftarrow>xs. (f x)\<^sup>2 :: real) = 0 \<longleftrightarrow> (\<forall>x\<in>set xs. f x = 0)"
  by (subst sum_list_nonneg_eq_0_iff) auto

lemma sum_list_quadratic:
  "(\<Sum>x\<leftarrow>xs. (t * f x - g x)\<^sup>2) =
     t\<^sup>2 * (\<Sum>x\<leftarrow>xs. (f x)\<^sup>2) - 2 * t * (\<Sum>x\<leftarrow>xs. f x * g x) + (\<Sum>x\<leftarrow>xs. (g x)\<^sup>2 :: real)"
  by (induction xs) (simp_all add: power2_eq_square algebra_simps)

lemma sum_list_cauchy_schwarz:
  fixes f g :: "'a \<Rightarrow> real"
  shows "(\<Sum>x\<leftarrow>xs. f x * g x)\<^sup>2 \<le> (\<Sum>x\<leftarrow>xs. (f x)\<^sup>2) * (\<Sum>x\<leftarrow>xs. (g x)\<^sup>2)"
proof -
  define A where "A = (\<Sum>x\<leftarrow>xs. (f x)\<^sup>2)"
  define B where "B = (\<Sum>x\<leftarrow>xs. (g x)\<^sup>2)"
  define C where "C = (\<Sum>x\<leftarrow>xs. f x * g x)"
  have quad: "0 \<le> t\<^sup>2 * A - 2 * t * C + B" for t
    using sum_list_sq_nonneg [of "\<lambda>x. t * f x - g x" xs]
    unfolding A_def B_def C_def sum_list_quadratic .
  have "0 \<le> A" unfolding A_def by simp
  show ?thesis
  proof (cases "A = 0")
    case True
    then have "\<forall>x\<in>set xs. f x = 0" unfolding A_def by (simp add: sum_list_sq_eq_0)
    then have "C = 0" unfolding C_def by (induction xs) auto
    with True show ?thesis unfolding A_def B_def C_def by simp
  next
    case False
    with \<open>0 \<le> A\<close> have "0 < A" by simp
    from quad [of "C / A"] \<open>0 < A\<close> have "0 \<le> B - C\<^sup>2 / A"
      by (simp add: power2_eq_square field_simps)
    with \<open>0 < A\<close> have "C\<^sup>2 \<le> B * A"
      by (simp add: field_simps)
    then show ?thesis unfolding A_def B_def C_def by (simp add: mult.commute)
  qed
qed

lemma sum_list_minus_const:
  "(\<Sum>x\<leftarrow>xs. f x - c) = (\<Sum>x\<leftarrow>xs. f x) - real (length xs) * (c :: real)"
  by (induction xs) (simp_all add: algebra_simps)

lemma sum_list_sq_shift:
  "(\<Sum>x\<leftarrow>xs. (f x - c)\<^sup>2) =
     (\<Sum>x\<leftarrow>xs. (f x)\<^sup>2) - 2 * c * (\<Sum>x\<leftarrow>xs. f x) + real (length xs) * c\<^sup>2"
  by (induction xs) (simp_all add: power2_eq_square algebra_simps)

lemma sum_list_prod_shift:
  "(\<Sum>x\<leftarrow>xs. (f x - a) * (g x - b)) =
     (\<Sum>x\<leftarrow>xs. f x * g x) - a * (\<Sum>x\<leftarrow>xs. g x) - b * (\<Sum>x\<leftarrow>xs. f x) + real (length xs) * a * (b :: real)"
  by (induction xs) (simp_all add: algebra_simps)

text \<open>The sum of squared deviations from the mean is zero exactly for a constant sample.\<close>

lemma sum_sq_dev_eq_0:
  fixes xs :: "real list"
  assumes "xs \<noteq> []"
  shows "(\<Sum>x\<leftarrow>xs. (x - sum_list xs / real (length xs))\<^sup>2) = 0 \<longleftrightarrow> (\<forall>u\<in>set xs. \<forall>w\<in>set xs. u = w)"
    (is "?ss = 0 \<longleftrightarrow> _")
proof
  let ?m = "sum_list xs / real (length xs)"
  assume "?ss = 0"
  then have eqm: "\<And>x. x \<in> set xs \<Longrightarrow> x = ?m" by (simp add: sum_list_sq_eq_0)
  show "\<forall>u\<in>set xs. \<forall>w\<in>set xs. u = w"
  proof (intro ballI)
    fix u w assume "u \<in> set xs" "w \<in> set xs"
    then have "u = ?m" and "w = ?m" using eqm by blast+
    then show "u = w" by simp
  qed
next
  assume eq: "\<forall>u\<in>set xs. \<forall>w\<in>set xs. u = w"
  from assms obtain c where c: "c \<in> set xs" by (cases xs) auto
  with eq have all: "\<forall>x\<in>set xs. x = c" by blast
  then have "sum_list xs = real (length xs) * c" by (induction xs) (simp_all add: algebra_simps)
  with assms have "sum_list xs / real (length xs) = c" by simp
  with all show "?ss = 0" by (simp add: sum_list_sq_eq_0)
qed

end
