(* ===== verification/Frame.thy ===== *)
theory Frame
  imports Prelude
begin

text \<open>
  The data frame that \<open>pd.read_csv\<close> returns in \<open>src/app.py\<close> (line 15) and
  the frame operations the script applies to it: \<open>df.shape\<close> (lines 24--25),
  column access \<open>df[c]\<close> (lines 53, 63--65, 83), \<open>df.head()\<close> (lines 19, 72),
  boolean indexing \<open>df[mask]\<close> (lines 63--66) and column selection
  \<open>df[cols]\<close> (line 87). A frame is kept row-major: a list of rows, each the
  row's index label and its cells in column order. Every column has a dtype
  inferred by the CSV reader; a cell is a number, a string, a boolean or the
  missing marker NaN. Floating-point values are modelled as reals.
\<close>

section \<open>Cells, dtypes, frames\<close>

datatype cell = CNum real | CStr string | CBool bool | CNaN

datatype dtype = Int64 | Float64 | BoolD | ObjectD

record frame =
  columns :: "label list"
  dtypes :: "dtype list"
  rows :: "(nat \<times> cell list) list"

text \<open>
  Errors: \<open>KeyError\<close> of \<open>df[c]\<close>; \<open>ParseError\<close> for what \<open>read_csv\<close>
  raises (a tokenizing error, no columns to parse); \<open>Unrepresentable\<close> for a
  file \<open>read_csv\<close> does read, into a frame outside this model (an index
  taken from the data, an infinite float); \<open>StreamlitAPIException\<close> for
  the exception \<open>st.slider\<close> raises when its bounds are equal;
  \<open>ImportError\<close> for \<open>Styler.background_gradient\<close> run without matplotlib.
\<close>

datatype error = KeyError label | ParseError | Unrepresentable | StreamlitAPIException | ImportError

text \<open>\<open>pd.isnull\<close> on one cell.\<close>

fun is_null :: "cell \<Rightarrow> bool" where
  "is_null CNaN = True"
| "is_null _ = False"

text \<open>\<open>np.number\<close>: the dtypes \<open>select_dtypes(include=np.number)\<close> keeps.\<close>

fun is_numeric_dtype :: "dtype \<Rightarrow> bool" where
  "is_numeric_dtype Int64 = True"
| "is_numeric_dtype Float64 = True"
| "is_numeric_dtype BoolD = False"
| "is_numeric_dtype ObjectD = False"

text \<open>
  Which cells a column of each dtype holds after \<open>read_csv\<close>: an int64 column
  only integral numbers and no NaN (a missing entry turns the column into
  float64), a float64 column numbers and NaN, a bool column booleans, an
  object column anything but a parsed number.
\<close>

fun cell_conforms :: "dtype \<Rightarrow> cell \<Rightarrow> bool" where
  "cell_conforms Int64 (CNum v) = (real_of_int \<lfloor>v\<rfloor> = v)"
| "cell_conforms Int64 _ = False"
| "cell_conforms Float64 (CNum v) = True"
| "cell_conforms Float64 CNaN = True"
| "cell_conforms Float64 _ = False"
| "cell_conforms BoolD (CBool b) = True"
| "cell_conforms BoolD _ = False"
| "cell_conforms ObjectD (CNum v) = False"
| "cell_conforms ObjectD _ = True"

definition wf_frame :: "frame \<Rightarrow> bool" where
  "wf_frame f \<longleftrightarrow>
     length (dtypes f) = length (columns f) \<and> distinct (columns f) \<and>
     distinct (map fst (rows f)) \<and>
     list_all (\<lambda>(i, r). list_all2 cell_conforms (dtypes f) r) (rows f)"

section \<open>Operations\<close>

text \<open>\<open>df.shape\<close>: (number of rows, number of columns).\<close>

definition shape :: "frame \<Rightarrow> nat \<times> nat" where
  "shape f = (length (rows f), length (columns f))"

text \<open>Position of a label among the columns; \<open>None\<close> is pandas' \<open>KeyError\<close>.\<close>

fun col_pos :: "label list \<Rightarrow> label \<Rightarrow> nat option" where
  "col_pos [] c = None"
| "col_pos (x # xs) c = (if x = c then Some 0 else map_option Suc (col_pos xs c))"

text \<open>The values of the column at a position, in row order.\<close>

definition column_values :: "frame \<Rightarrow> nat \<Rightarrow> cell list" where
  "column_values f j = map (\<lambda>(i, r). r ! j) (rows f)"

text \<open>\<open>df[c]\<close>: the column as a Series, each value with its row's index label.\<close>

definition get_column :: "frame \<Rightarrow> label \<Rightarrow> error + (nat \<times> cell) list" where
  "get_column f c =
     (case col_pos (columns f) c of
        None \<Rightarrow> Inl (KeyError c)
      | Some j \<Rightarrow> Inr (map (\<lambda>(i, r). (i, r ! j)) (rows f)))"

text \<open>\<open>df.head(n)\<close>; the script calls it with the default \<open>n = 5\<close>.\<close>

definition head :: "nat \<Rightarrow> frame \<Rightarrow> frame" where
  "head n f = f\<lparr>rows := take n (rows f)\<rparr>"

text \<open>\<open>df[mask]\<close>: the rows whose entry of the boolean mask is true, with their labels.\<close>

definition bool_index :: "frame \<Rightarrow> bool list \<Rightarrow> frame" where
  "bool_index f m = f\<lparr>rows := map fst (filter snd (zip (rows f) m))\<rparr>"

text \<open>\<open>df[cols]\<close>: the listed columns, in the order listed (all present here).\<close>

definition select_columns :: "frame \<Rightarrow> label list \<Rightarrow> error + frame" where
  "select_columns f cs =
     (case those (map (col_pos (columns f)) cs) of
        None \<Rightarrow> Inl (KeyError (hd [c\<leftarrow>cs. col_pos (columns f) c = None]))
      | Some js \<Rightarrow> Inr \<lparr>columns = cs, dtypes = map (\<lambda>j. dtypes f ! j) js,
                       rows = map (\<lambda>(i, r). (i, map (\<lambda>j. r ! j) js)) (rows f)\<rparr>)"

text \<open>
  Reductions of a Series skip NaN (\<open>skipna=True\<close>): \<open>nums_of\<close> is the
  Series without its missing cells, and \<open>Series.min()\<close> / \<open>Series.max()\<close>
  of a Series without numbers is NaN, here \<open>None\<close>.
\<close>

fun nums_of :: "cell list \<Rightarrow> real list" where
  "nums_of [] = []"
| "nums_of (CNum v # xs) = v # nums_of xs"
| "nums_of (_ # xs) = nums_of xs"

definition series_min :: "cell list \<Rightarrow> real option" where
  "series_min xs = (case nums_of xs of [] \<Rightarrow> None | v # vs \<Rightarrow> Some (fold min vs v))"

definition series_max :: "cell list \<Rightarrow> real option" where
  "series_max xs = (case nums_of xs of [] \<Rightarrow> None | v # vs \<Rightarrow> Some (fold max vs v))"

text \<open>
  The five-row table of the specification's end-to-end example, as
  \<open>read_csv\<close> returns it: \<open>x = 1..5\<close> (int64), \<open>y\<close> with one missing
  entry (float64), and a text column.
\<close>

definition sample_frame :: frame where
  "sample_frame =
     \<lparr>columns = [''x'', ''y'', ''name''], dtypes = [Int64, Float64, ObjectD],
      rows = [(0, [CNum 1, CNum 2, CStr ''a'']), (1, [CNum 2, CNum 4, CStr ''b'']),
              (2, [CNum 3, CNaN, CStr ''c'']), (3, [CNum 4, CNum 8, CStr ''d'']),
              (4, [CNum 5, CNum 10, CStr ''e''])]\<rparr>"

section \<open>Lemmas\<close>

lemma col_pos_Some:
  "col_pos cs c = Some j \<Longrightarrow> j < length cs \<and> cs ! j = c"
  by (induction cs arbitrary: j) (auto split: if_splits)

lemma col_pos_None [simp]:
  "col_pos cs c = None \<longleftrightarrow> c \<notin> set cs"
  by (induction cs) auto

lemma col_pos_nth:
  "distinct cs \<Longrightarrow> j < length cs \<Longrightarrow> col_pos cs (cs ! j) = Some j"
proof (induction cs arbitrary: j)
  case Nil
  then show ?case by simp
next
  case (Cons x xs)
  then show ?case by (cases j) (auto simp: nth_mem)
qed

lemma wf_frame_row_length:
  "wf_frame f \<Longrightarrow> (i, r) \<in> set (rows f) \<Longrightarrow> length r = length (columns f)"
  by (auto simp: wf_frame_def list_all_iff dest!: bspec list_all2_lengthD)

lemma wf_frame_cell:
  "wf_frame f \<Longrightarrow> (i, r) \<in> set (rows f) \<Longrightarrow> j < length (columns f) \<Longrightarrow>
     cell_conforms (dtypes f ! j) (r ! j)"
  by (auto simp: wf_frame_def list_all_iff list_all2_conv_all_nth dest!: bspec)

lemma numeric_cell_cases:
  "is_numeric_dtype d \<Longrightarrow> cell_conforms d x \<Longrightarrow> (\<exists>v. x = CNum v) \<or> x = CNaN"
  by (cases d; cases x) auto

lemma rows_bool_index [frame_simps]:
  "rows (bool_index f m) = map fst (filter snd (zip (rows f) m))"
  by (simp add: bool_index_def)

lemma columns_bool_index [simp]:
  "columns (bool_index f m) = columns f" and dtypes_bool_index [simp]:
  "dtypes (bool_index f m) = dtypes f"
  by (simp_all add: bool_index_def)

lemma wf_frame_subseq_rows:
  assumes "wf_frame f" and "columns g = columns f" and "dtypes g = dtypes f"
    and "subseq (rows g) (rows f)"
  shows "wf_frame g"
proof -
  from assms(4) have "set (rows g) \<subseteq> set (rows f)" by (rule subseq_set_subset)
  moreover from assms(4) have "subseq (map fst (rows g)) (map fst (rows f))"
    by (rule subseq_map)
  then have "distinct (map fst (rows g))"
    using assms(1) by (auto simp: wf_frame_def intro: subseq_distinct)
  ultimately show ?thesis using assms(1-3) by (auto simp: wf_frame_def list_all_iff)
qed

lemma wf_bool_index:
  "wf_frame f \<Longrightarrow> wf_frame (bool_index f m)"
  by (rule wf_frame_subseq_rows) (simp_all add: bool_index_def, rule subseq_mask)

lemma wf_head:
  "wf_frame f \<Longrightarrow> wf_frame (head n f)"
  by (rule wf_frame_subseq_rows) (simp_all add: head_def, rule prefix_imp_subseq, rule take_is_prefix)

lemma get_column_present:
  "col_pos (columns f) c = Some j \<Longrightarrow> get_column f c = Inr (map (\<lambda>(i, r). (i, r ! j)) (rows f))"
  by (simp add: get_column_def)

lemma map_snd_get_column:
  "col_pos (columns f) c = Some j \<Longrightarrow>
     get_column f c = Inr s \<Longrightarrow> map snd s = column_values f j"
  by (auto simp: get_column_def column_values_def split: prod.splits)

lemma set_nums_of:
  "v \<in> set (nums_of xs) \<longleftrightarrow> CNum v \<in> set xs"
  by (induction xs rule: nums_of.induct) auto

lemma series_min_Some:
  assumes "series_min xs = Some l"
  shows "CNum l \<in> set xs \<and> (\<forall>v. CNum v \<in> set xs \<longrightarrow> l \<le> v)"
proof (cases "nums_of xs")
  case Nil
  with assms show ?thesis by (simp add: series_min_def)
next
  case (Cons w ws)
  with assms have "l = fold min ws w" by (simp add: series_min_def)
  also have "\<dots> = Min (set (w # ws))" by (rule Min.set_eq_fold [symmetric])
  finally have l: "l = Min (set (nums_of xs))" using Cons by simp
  have "l \<in> set (nums_of xs)" unfolding l using Cons by (intro Min_in) auto
  moreover have "\<forall>v\<in>set (nums_of xs). l \<le> v" unfolding l by (auto intro: Min_le)
  ultimately show ?thesis by (simp add: set_nums_of)
qed

lemma series_max_Some:
  assumes "series_max xs = Some h"
  shows "CNum h \<in> set xs \<and> (\<forall>v. CNum v \<in> set xs \<longrightarrow> v \<le> h)"
proof (cases "nums_of xs")
  case Nil
  with assms show ?thesis by (simp add: series_max_def)
next
  case (Cons w ws)
  with assms have "h = fold max ws w" by (simp add: series_max_def)
  also have "\<dots> = Max (set (w # ws))" by (rule Max.set_eq_fold [symmetric])
  finally have h: "h = Max (set (nums_of xs))" using Cons by simp
  have "h \<in> set (nums_of xs)" unfolding h using Cons by (intro Max_in) auto
  moreover have "\<forall>v\<in>set (nums_of xs). v \<le> h" unfolding h by (auto intro: Max_ge)
  ultimately show ?thesis by (simp add: set_nums_of)
qed

lemma series_min_None:
  "series_min xs = None \<longleftrightarrow> (\<forall>v. CNum v \<notin> set xs)"
  by (auto simp: series_min_def set_nums_of [symmetric] split: list.splits)

lemma series_max_None:
  "series_max xs = None \<longleftrightarrow> (\<forall>v. CNum v \<notin> set xs)"
  by (auto simp: series_max_def set_nums_of [symmetric] split: list.splits)

lemma CNum_in_column_values:
  "(i, r) \<in> set (rows f) \<Longrightarrow> r ! j = CNum v \<Longrightarrow> CNum v \<in> set (column_values f j)"
  by (force simp: column_values_def)

lemma wf_sample_frame: "wf_frame sample_frame"
  by (simp add: wf_frame_def sample_frame_def)

lemma column_bounds:
  assumes "CNum v \<in> set xs"
  shows "\<exists>l h. series_min xs = Some l \<and> series_max xs = Some h \<and> l \<le> v \<and> v \<le> h"
proof -
  obtain l where l: "series_min xs = Some l"
    using assms series_min_None by (cases "series_min xs") auto
  obtain h where h: "series_max xs = Some h"
    using assms series_max_None by (cases "series_max xs") auto
  from series_min_Some [OF l] series_max_Some [OF h] assms l h show ?thesis by blast
qed

lemma wf_numeric_cell:
  assumes "wf_frame f" and "col_pos (columns f) c = Some j" and "is_numeric_dtype (dtypes f ! j)"
    and "(i, r) \<in> set (rows f)"
  shows "(\<exists>v. r ! j = CNum v) \<or> r ! j = CNaN"
proof -
  from col_pos_Some [OF assms(2)] have "j < length (columns f)" by simp
  with assms(1,4) have "cell_conforms (dtypes f ! j) (r ! j)" by (rule wf_frame_cell)
  with assms(3) show ?thesis by (rule numeric_cell_cases)
qed

declare shape_def [frame_simps] get_column_def [frame_simps] head_def [frame_simps]
  bool_index_def [frame_simps] column_values_def [frame_simps] series_min_def [frame_simps]
  series_max_def [frame_simps] sample_frame_def [frame_simps] select_columns_def [frame_simps]

end
