(* ===== verification/Sidebar.thy ===== *)
theory Sidebar
  imports Frame
begin

text \<open>
  The sidebar filter of \<open>src/app.py\<close> (lines 43--68): the numeric columns
  (\<open>select_dtypes(include=np.number)\<close>, line 45), the column select box and
  the two-handle range slider (lines 48--61), the bounds
  \<open>float(df[c].min())\<close> / \<open>float(df[c].max())\<close> (lines 53--54), and the
  boolean mask \<open>(df[c] >= lo) & (df[c] <= hi)\<close> that selects the filtered
  view (lines 63--66), or the whole frame when there is no numeric column
  (line 68). NaN is \<open>None\<close> among the bounds; every comparison with NaN, on
  either side, is false, as in numpy. The widgets are modelled by what they
  return: the user's pick when it is admissible, the default otherwise; the
  slider raises Streamlit's exception when its bounds are equal.
\<close>

section \<open>Widgets and their state\<close>

text \<open>What the user has picked in the session's widgets (\<open>None\<close>: untouched).\<close>

record ui =
  pick_col :: "label option"
  pick_range :: "(real \<times> real) option"
  pick_chart :: "label option"

text \<open>\<open>st.selectbox(label, options)\<close>: the picked option, else the first one (index 0).\<close>

definition selectbox :: "label list \<Rightarrow> label option \<Rightarrow> label" where
  "selectbox opts pick =
     (case pick of
        Some c \<Rightarrow> if c \<in> set opts then c else hd opts
      | None \<Rightarrow> hd opts)"

text \<open>
  \<open>min_value == max_value\<close> on two floats: false when either is NaN.
\<close>

definition bounds_equal :: "real option \<Rightarrow> real option \<Rightarrow> bool" where
  "bounds_equal lo hi = (case (lo, hi) of (Some l, Some h) \<Rightarrow> l = h | _ \<Rightarrow> False)"

text \<open>
  \<open>st.slider(label, min_val, max_val, (min_val, max_val))\<close>: Streamlit
  raises \<open>StreamlitAPIException\<close> when the bounds are equal; otherwise the
  value is a pair inside the bounds picked by the user, else the default
  value, the full range.
\<close>

definition slider ::
  "real option \<Rightarrow> real option \<Rightarrow> (real \<times> real) option \<Rightarrow> error + real option \<times> real option" where
  "slider lo hi pick =
     (if bounds_equal lo hi then Inl StreamlitAPIException
      else case (lo, hi, pick) of
        (Some l, Some h, Some (a, b)) \<Rightarrow>
          if l \<le> a \<and> a \<le> b \<and> b \<le> h then Inr (Some a, Some b) else Inr (lo, hi)
      | _ \<Rightarrow> Inr (lo, hi))"

section \<open>Numeric columns and the range mask\<close>

definition numeric_cols :: "frame \<Rightarrow> label list" where
  "numeric_cols f = map fst (filter (\<lambda>(c, d). is_numeric_dtype d) (zip (columns f) (dtypes f)))"

text \<open>\<open>series >= a\<close> and \<open>series <= b\<close> on one cell: false on NaN on either side.\<close>

fun cell_ge :: "cell \<Rightarrow> real option \<Rightarrow> bool" where
  "cell_ge (CNum v) (Some a) = (a \<le> v)"
| "cell_ge _ _ = False"

fun cell_le :: "cell \<Rightarrow> real option \<Rightarrow> bool" where
  "cell_le (CNum v) (Some b) = (v \<le> b)"
| "cell_le _ _ = False"

definition range_mask :: "cell list \<Rightarrow> real option \<times> real option \<Rightarrow> bool list" where
  "range_mask xs rng =
     map2 (\<and>) (map (\<lambda>x. cell_ge x (fst rng)) xs) (map (\<lambda>x. cell_le x (snd rng)) xs)"

text \<open>\<open>df[(df[c] >= rng[0]) & (df[c] <= rng[1])]\<close>.\<close>

definition range_filter :: "frame \<Rightarrow> label \<Rightarrow> real option \<times> real option \<Rightarrow> error + frame" where
  "range_filter f c rng =
     (case get_column f c of
        Inl e \<Rightarrow> Inl e
      | Inr s \<Rightarrow> Inr (bool_index f (range_mask (map snd s) rng)))"

section \<open>The sidebar block\<close>

text \<open>The controls the sidebar shows, when there is a numeric column.\<close>

record controls =
  sel_col :: label
  min_val :: "real option"
  max_val :: "real option"
  sel_range :: "real option \<times> real option"

definition sidebar_filter :: "frame \<Rightarrow> ui \<Rightarrow> error + controls option \<times> frame" where
  "sidebar_filter f u =
     (let ncols = numeric_cols f in
      if 0 < length ncols then
        (let c = selectbox ncols (pick_col u) in
         case get_column f c of
           Inl e \<Rightarrow> Inl e
         | Inr s \<Rightarrow>
             (let lo = series_min (map snd s);
                  hi = series_max (map snd s)
              in case slider lo hi (pick_range u) of
                   Inl e \<Rightarrow> Inl e
                 | Inr rng \<Rightarrow>
                     (case range_filter f c rng of
                        Inl e \<Rightarrow> Inl e
                      | Inr g \<Rightarrow>
                          Inr (Some \<lparr>sel_col = c, min_val = lo, max_val = hi, sel_range = rng\<rparr>, g))))
      else Inr (None, f))"

text \<open>The closed range a row's cell must fall in, NaN excluded (used in statements).\<close>

definition in_range :: "real \<Rightarrow> real \<Rightarrow> cell \<Rightarrow> bool" where
  "in_range a b x = (\<exists>v. x = CNum v \<and> a \<le> v \<and> v \<le> b)"

text \<open>Widget states and a table with an all-NaN numeric column, for the examples.\<close>

definition demo_ui :: ui where
  "demo_ui = \<lparr>pick_col = Some ''x'', pick_range = Some (2, 4), pick_chart = None\<rparr>"

definition nan_frame :: frame where
  "nan_frame = \<lparr>columns = [''z''], dtypes = [Float64], rows = [(0, [CNaN]), (1, [CNaN])]\<rparr>"

section \<open>Lemmas\<close>

lemma selectbox_mem:
  "opts \<noteq> [] \<Longrightarrow> selectbox opts pick \<in> set opts"
  by (auto simp: selectbox_def split: option.splits)

lemma selectbox_pick:
  "c \<in> set opts \<Longrightarrow> selectbox opts (Some c) = c"
  by (simp add: selectbox_def)

lemma slider_bounds:
  assumes "slider (Some l) (Some h) p = Inr (Some a, Some b)" and "l \<le> h"
  shows "l < h \<and> l \<le> a \<and> a \<le> b \<and> b \<le> h"
  using assms by (auto simp: slider_def bounds_equal_def split: option.splits prod.splits if_splits)

lemma slider_None_lo:
  "slider None hi p = Inr (None, hi)"
  by (simp add: slider_def bounds_equal_def)

lemma slider_Inl:
  "slider lo hi p = Inl e \<longleftrightarrow> e = StreamlitAPIException \<and> bounds_equal lo hi"
  by (auto simp: slider_def split: option.splits prod.splits if_splits)

lemma slider_Inr:
  "\<not> bounds_equal lo hi \<Longrightarrow> \<exists>rng. slider lo hi p = Inr rng"
  by (auto simp: slider_def split: option.splits prod.splits)

lemma set_numeric_cols:
  "c \<in> set (numeric_cols f) \<longleftrightarrow>
     (\<exists>j < length (columns f). j < length (dtypes f) \<and> columns f ! j = c \<and> is_numeric_dtype (dtypes f ! j))"
proof
  assume "c \<in> set (numeric_cols f)"
  then show "\<exists>j < length (columns f). j < length (dtypes f) \<and> columns f ! j = c \<and> is_numeric_dtype (dtypes f ! j)"
    by (auto simp: numeric_cols_def in_set_zip)
next
  assume "\<exists>j < length (columns f). j < length (dtypes f) \<and> columns f ! j = c \<and> is_numeric_dtype (dtypes f ! j)"
  then obtain j where "j < length (columns f)" "j < length (dtypes f)" "columns f ! j = c"
    "is_numeric_dtype (dtypes f ! j)" by blast
  then have "(c, dtypes f ! j) \<in> set (filter (\<lambda>(c, d). is_numeric_dtype d) (zip (columns f) (dtypes f)))"
    by (auto simp: in_set_zip)
  then show "c \<in> set (numeric_cols f)"
    unfolding numeric_cols_def by (metis fst_conv image_eqI set_map)
qed

lemma numeric_cols_pos:
  assumes "wf_frame f" and "c \<in> set (numeric_cols f)"
  obtains j where "col_pos (columns f) c = Some j" and "j < length (columns f)"
    and "is_numeric_dtype (dtypes f ! j)"
proof -
  from assms(2) obtain j where j: "j < length (columns f)" "columns f ! j = c"
    "is_numeric_dtype (dtypes f ! j)"
    by (auto simp: set_numeric_cols)
  with assms(1) have "col_pos (columns f) c = Some j"
    by (auto simp: wf_frame_def intro: col_pos_nth)
  with j that show ?thesis by blast
qed

lemma numeric_cols_col_pos:
  "c \<in> set (numeric_cols f) \<Longrightarrow> \<exists>j. col_pos (columns f) c = Some j"
  by (cases "col_pos (columns f) c") (auto simp: set_numeric_cols nth_mem)

lemma range_mask_map [simp]:
  "range_mask xs rng = map (\<lambda>x. cell_ge x (fst rng) \<and> cell_le x (snd rng)) xs"
  by (simp add: range_mask_def)

lemma in_range_cell:
  "in_range a b x \<longleftrightarrow> cell_ge x (Some a) \<and> cell_le x (Some b)"
  by (cases x) (auto simp: in_range_def)

lemma range_filter_rows:
  assumes "col_pos (columns f) c = Some j" and "range_filter f c rng = Inr g"
  shows "rows g = filter (\<lambda>(i, r). cell_ge (r ! j) (fst rng) \<and> cell_le (r ! j) (snd rng)) (rows f)
         \<and> columns g = columns f \<and> dtypes g = dtypes f"
proof -
  have "g = bool_index f (map (\<lambda>x. cell_ge (snd x ! j) (fst rng) \<and> cell_le (snd x ! j) (snd rng)) (rows f))"
    using assms by (simp add: range_filter_def get_column_def comp_def case_prod_beta)
  then show ?thesis by (simp add: bool_index_def split_def)
qed

lemma range_filter_Inr:
  "c \<in> set (columns f) \<Longrightarrow> \<exists>g. range_filter f c rng = Inr g"
  by (cases "col_pos (columns f) c") (auto simp: range_filter_def get_column_def)

lemma filter_subseq_mono:
  "(\<And>x. P x \<Longrightarrow> Q x) \<Longrightarrow> subseq (filter P xs) (filter Q xs)"
  by (induction xs) auto

lemma slider_None_hi:
  "slider lo None p = Inr (lo, None)"
  by (cases lo) (simp_all add: slider_def bounds_equal_def)

lemma range_filter_view:
  assumes "range_filter f c rng = Inr g"
  shows "columns g = columns f \<and> dtypes g = dtypes f \<and> subseq (rows g) (rows f) \<and>
         (wf_frame f \<longrightarrow> wf_frame g)"
  using assms
  by (auto simp: range_filter_def bool_index_def subseq_mask wf_bool_index [unfolded bool_index_def]
           split: sum.splits)

lemma range_filter_Inr_pos:
  "range_filter f c rng = Inr g \<Longrightarrow> \<exists>j. col_pos (columns f) c = Some j"
  by (cases "col_pos (columns f) c") (auto simp: range_filter_def get_column_def)

lemma sidebar_filter_empty:
  "numeric_cols f = [] \<Longrightarrow> sidebar_filter f u = Inr (None, f)"
  by (simp add: sidebar_filter_def)

text \<open>The sidebar block on a frame with a numeric column, evaluated.\<close>

lemma sidebar_filter_numeric:
  assumes "numeric_cols f \<noteq> []"
    and c: "c = selectbox (numeric_cols f) (pick_col u)"
    and j: "col_pos (columns f) c = Some j"
    and rng: "slider (series_min (column_values f j)) (series_max (column_values f j)) (pick_range u) = Inr rng"
  shows "sidebar_filter f u =
    Inr (Some \<lparr>sel_col = c, min_val = series_min (column_values f j),
               max_val = series_max (column_values f j), sel_range = rng\<rparr>,
         bool_index f (range_mask (column_values f j) rng))"
proof -
  have s: "get_column f c = Inr (map (\<lambda>(i, r). (i, r ! j)) (rows f))"
    using j by (rule get_column_present)
  have v: "map (snd \<circ> (\<lambda>(i, r). (i, r ! j))) (rows f) = column_values f j"
    by (simp add: column_values_def split_def)
  show ?thesis
    using assms(1) unfolding sidebar_filter_def Let_def c [symmetric]
    by (simp add: s v rng range_filter_def del: range_mask_map)
qed

text \<open>The sidebar block when the slider raises.\<close>

lemma sidebar_filter_slider_Inl:
  assumes "numeric_cols f \<noteq> []"
    and c: "c = selectbox (numeric_cols f) (pick_col u)"
    and j: "col_pos (columns f) c = Some j"
    and e: "slider (series_min (column_values f j)) (series_max (column_values f j)) (pick_range u) = Inl e"
  shows "sidebar_filter f u = Inl e"
proof -
  have s: "get_column f c = Inr (map (\<lambda>(i, r). (i, r ! j)) (rows f))"
    using j by (rule get_column_present)
  have v: "map (snd \<circ> (\<lambda>(i, r). (i, r ! j))) (rows f) = column_values f j"
    by (simp add: column_values_def split_def)
  show ?thesis
    using assms(1) unfolding sidebar_filter_def Let_def c [symmetric]
    by (simp add: s v e)
qed

lemma sidebar_filter_SomeE:
  assumes "sidebar_filter f u = Inr (Some ctl, g)"
  obtains j where "numeric_cols f \<noteq> []" and "sel_col ctl = selectbox (numeric_cols f) (pick_col u)"
    and "col_pos (columns f) (sel_col ctl) = Some j"
    and "min_val ctl = series_min (column_values f j)" and "max_val ctl = series_max (column_values f j)"
    and "slider (min_val ctl) (max_val ctl) (pick_range u) = Inr (sel_range ctl)"
    and "range_filter f (sel_col ctl) (sel_range ctl) = Inr g"
proof -
  let ?c = "selectbox (numeric_cols f) (pick_col u)"
  have ne: "numeric_cols f \<noteq> []"
    using assms by (auto simp: sidebar_filter_empty)
  then have "?c \<in> set (numeric_cols f)" by (rule selectbox_mem)
  then obtain j where j: "col_pos (columns f) ?c = Some j"
    using numeric_cols_col_pos by blast
  let ?lo = "series_min (column_values f j)" and ?hi = "series_max (column_values f j)"
  obtain rng where rng: "slider ?lo ?hi (pick_range u) = Inr rng"
  proof (cases "slider ?lo ?hi (pick_range u)")
    case (Inl e)
    with sidebar_filter_slider_Inl [OF ne refl j Inl] assms show ?thesis by simp
  qed
  have eq: "sidebar_filter f u =
    Inr (Some \<lparr>sel_col = ?c, min_val = ?lo, max_val = ?hi, sel_range = rng\<rparr>,
         bool_index f (range_mask (column_values f j) rng))"
    by (rule sidebar_filter_numeric [OF ne refl j rng])
  have rf: "range_filter f ?c rng = Inr (bool_index f (range_mask (column_values f j) rng))"
    using j by (simp add: range_filter_def get_column_def column_values_def split_def comp_def del: range_mask_map)
  from assms eq rf ne j rng show ?thesis
    by (intro that [of j]) auto
qed

text \<open>A non-NaN minimum equal to the non-NaN maximum: the column holds one value only.\<close>

lemma series_min_max_eq:
  "series_min xs = Some v \<and> series_max xs = Some v \<longleftrightarrow>
     CNum v \<in> set xs \<and> (\<forall>w. CNum w \<in> set xs \<longrightarrow> w = v)"
proof
  assume "series_min xs = Some v \<and> series_max xs = Some v"
  with series_min_Some [of xs v] series_max_Some [of xs v]
  show "CNum v \<in> set xs \<and> (\<forall>w. CNum w \<in> set xs \<longrightarrow> w = v)"
    by (auto intro: order.antisym)
next
  assume a: "CNum v \<in> set xs \<and> (\<forall>w. CNum w \<in> set xs \<longrightarrow> w = v)"
  then obtain l h where "series_min xs = Some l" "series_max xs = Some h"
    using column_bounds by blast
  with a series_min_Some [of xs l] series_max_Some [of xs h]
  show "series_min xs = Some v \<and> series_max xs = Some v" by auto
qed

text \<open>
  When the sidebar block raises: exactly when the table has a numeric column
  and the selected one holds a single value, so that the slider's bounds
  are equal.
\<close>

lemma sidebar_filter_Inl_iff:
  "sidebar_filter f u = Inl e \<longleftrightarrow>
     e = StreamlitAPIException \<and> numeric_cols f \<noteq> [] \<and>
     (\<exists>j v. col_pos (columns f) (selectbox (numeric_cols f) (pick_col u)) = Some j \<and>
            series_min (column_values f j) = Some v \<and> series_max (column_values f j) = Some v)"
proof (cases "numeric_cols f = []")
  case True
  then show ?thesis by (simp add: sidebar_filter_empty)
next
  case False
  let ?c = "selectbox (numeric_cols f) (pick_col u)"
  from False have "?c \<in> set (numeric_cols f)" by (rule selectbox_mem)
  then obtain j where j: "col_pos (columns f) ?c = Some j"
    using numeric_cols_col_pos by blast
  let ?lo = "series_min (column_values f j)" and ?hi = "series_max (column_values f j)"
  have eqv: "bounds_equal ?lo ?hi \<longleftrightarrow> (\<exists>v. ?lo = Some v \<and> ?hi = Some v)"
    by (auto simp: bounds_equal_def split: option.splits)
  show ?thesis
  proof (cases "slider ?lo ?hi (pick_range u)")
    case (Inl e')
    then show ?thesis
      using sidebar_filter_slider_Inl [OF False refl j Inl] False j eqv slider_Inl by auto
  next
    case (Inr rng)
    have nb: "\<not> bounds_equal ?lo ?hi"
      using Inr slider_Inl [of ?lo ?hi "pick_range u" StreamlitAPIException] by auto
    show ?thesis
      using nb eqv j by (simp add: sidebar_filter_numeric [OF False refl j Inr])
  qed
qed

lemma cell_ge_None [simp]: "cell_ge x None = False"
  by (cases x) auto

lemma cell_le_None [simp]: "cell_le x None = False"
  by (cases x) auto

lemma cell_ge_mono: "a' \<le> a \<Longrightarrow> cell_ge x (Some a) \<Longrightarrow> cell_ge x (Some a')"
  by (cases x) auto

lemma cell_le_mono: "b \<le> b' \<Longrightarrow> cell_le x (Some b) \<Longrightarrow> cell_le x (Some b')"
  by (cases x) auto

lemma sidebar_filter_None_iff:
  "sidebar_filter f u = Inr (ctl, g) \<Longrightarrow> ctl = None \<longleftrightarrow> numeric_cols f = []"
  by (auto simp: sidebar_filter_def Let_def split: sum.splits if_splits)

lemma sidebar_filter_NoneE:
  "sidebar_filter f u = Inr (None, g) \<Longrightarrow> numeric_cols f = [] \<and> g = f"
  by (metis sidebar_filter_None_iff sidebar_filter_empty old.prod.inject sum.inject(2))

lemmas sidebar_eval [frame_simps] = sidebar_filter_def numeric_cols_def selectbox_def slider_def
  bounds_equal_def range_filter_def Let_def

section \<open>Properties of the filter\<close>

text \<open>
  C1: the filtered view keeps exactly the rows whose value in the selected
  column lies in the closed range \<open>[a, b]\<close>, in their original order and with
  their index labels; every other row, in particular every row with NaN in
  that column, is dropped.
\<close>

theorem range_filter_partition:
  assumes "col_pos (columns f) c = Some j" and "range_filter f c (Some a, Some b) = Inr g"
  shows "rows g = filter (\<lambda>(i, r). in_range a b (r ! j)) (rows f)"
  using range_filter_rows [OF assms] by (simp add: in_range_cell)

theorem range_filter_partition_witness:
  "range_filter sample_frame ''x'' (Some 2, Some 4) = Inr (bool_index sample_frame [False, True, True, True, False])
   \<and> map fst (rows (bool_index sample_frame [False, True, True, True, False])) = [1, 2, 3]"
proof -
  have j: "col_pos (columns sample_frame) ''x'' = Some 0" by (simp add: sample_frame_def)
  have g: "range_filter sample_frame ''x'' (Some 2, Some 4) = Inr (bool_index sample_frame [False, True, True, True, False])"
    by (simp add: frame_simps)
  have "rows (bool_index sample_frame [False, True, True, True, False]) =
        filter (\<lambda>(i, r). in_range 2 4 (r ! 0)) (rows sample_frame)"
    by (rule range_filter_partition [OF j g])
  then have "map fst (rows (bool_index sample_frame [False, True, True, True, False])) = [1, 2, 3]"
    by (simp add: sample_frame_def in_range_def)
  with g show ?thesis by blast
qed

text \<open>
  C2: with the slider at its default, the full range
  \<open>[float(df[c].min()), float(df[c].max())]\<close> of a numeric column, the
  filtered view is every row whose value in that column is not missing.
\<close>

theorem range_filter_full_range:
  assumes wf: "wf_frame f" and j: "col_pos (columns f) c = Some j"
    and num: "is_numeric_dtype (dtypes f ! j)"
    and g: "range_filter f c (series_min (column_values f j), series_max (column_values f j)) = Inr g"
  shows "rows g = filter (\<lambda>(i, r). \<not> is_null (r ! j)) (rows f)"
proof -
  let ?lo = "series_min (column_values f j)" and ?hi = "series_max (column_values f j)"
  have "rows g = filter (\<lambda>(i, r). cell_ge (r ! j) ?lo \<and> cell_le (r ! j) ?hi) (rows f)"
    using range_filter_rows [OF j g] by simp
  also have "\<dots> = filter (\<lambda>(i, r). \<not> is_null (r ! j)) (rows f)"
  proof (rule filter_cong [OF refl], clarify)
    fix i r assume x: "(i, r) \<in> set (rows f)"
    from wf j num x have "(\<exists>v. r ! j = CNum v) \<or> r ! j = CNaN" by (rule wf_numeric_cell)
    then show "(cell_ge (r ! j) ?lo \<and> cell_le (r ! j) ?hi) = (\<not> is_null (r ! j))"
    proof
      assume "\<exists>v. r ! j = CNum v"
      then obtain v where v: "r ! j = CNum v" ..
      with x have "CNum v \<in> set (column_values f j)" by (rule CNum_in_column_values)
      then obtain l h where "?lo = Some l" "?hi = Some h" "l \<le> v" "v \<le> h"
        using column_bounds by blast
      with v show ?thesis by simp
    qed simp
  qed
  finally show ?thesis .
qed

theorem range_filter_full_range_witness:
  "range_filter sample_frame ''y'' (series_min (column_values sample_frame 1),
      series_max (column_values sample_frame 1)) = Inr (bool_index sample_frame [True, True, False, True, True])
   \<and> map fst (rows (bool_index sample_frame [True, True, False, True, True])) = [0, 1, 3, 4]"
proof -
  have j: "col_pos (columns sample_frame) ''y'' = Some 1" by (simp add: sample_frame_def)
  have g: "range_filter sample_frame ''y'' (series_min (column_values sample_frame 1),
             series_max (column_values sample_frame 1)) = Inr (bool_index sample_frame [True, True, False, True, True])"
    by (simp add: frame_simps)
  have "rows (bool_index sample_frame [True, True, False, True, True]) =
        filter (\<lambda>(i, r). \<not> is_null (r ! 1)) (rows sample_frame)"
    by (rule range_filter_full_range [OF wf_sample_frame j _ g]) (simp add: sample_frame_def)
  then have "map fst (rows (bool_index sample_frame [True, True, False, True, True])) = [0, 1, 3, 4]"
    by (simp add: sample_frame_def)
  with g show ?thesis by blast
qed

text \<open>
  C3: whatever the widgets hold, the filtered view is a row subset of the
  table: the same columns and dtypes, its rows a subsequence of the table's
  rows (labels kept), and well-formed when the table is.
\<close>

theorem sidebar_filter_row_subset:
  assumes "wf_frame f" and "sidebar_filter f u = Inr (ctl, g)"
  shows "wf_frame g \<and> columns g = columns f \<and> dtypes g = dtypes f \<and> subseq (rows g) (rows f)"
proof (cases ctl)
  case None
  with assms(2) have "g = f" using sidebar_filter_NoneE by blast
  with assms(1) show ?thesis by simp
next
  case (Some k)
  with assms(2) have "sidebar_filter f u = Inr (Some k, g)" by simp
  then obtain j where "range_filter f (sel_col k) (sel_range k) = Inr g"
    by (rule sidebar_filter_SomeE)
  with assms(1) show ?thesis using range_filter_view by blast
qed

theorem sidebar_filter_row_subset_witness:
  "sidebar_filter sample_frame demo_ui =
     Inr (Some \<lparr>sel_col = ''x'', min_val = Some 1, max_val = Some 5, sel_range = (Some 2, Some 4)\<rparr>,
          bool_index sample_frame [False, True, True, True, False])
   \<and> wf_frame (bool_index sample_frame [False, True, True, True, False])"
proof -
  have e: "sidebar_filter sample_frame demo_ui =
     Inr (Some \<lparr>sel_col = ''x'', min_val = Some 1, max_val = Some 5, sel_range = (Some 2, Some 4)\<rparr>,
          bool_index sample_frame [False, True, True, True, False])"
    by (simp add: frame_simps demo_ui_def)
  from sidebar_filter_row_subset [OF wf_sample_frame e] e show ?thesis by blast
qed

text \<open>
  C4: when the slider holds a range of numbers, its bounds are the smallest
  and the largest non-NaN value of the selected column (lines 53--54), they
  differ, and the range lies within them, low end first.
\<close>

theorem sidebar_slider_bounds:
  assumes "sidebar_filter f u = Inr (Some ctl, g)" and "sel_range ctl = (Some a, Some b)"
  shows "\<exists>j l h. col_pos (columns f) (sel_col ctl) = Some j \<and>
           min_val ctl = Some l \<and> max_val ctl = Some h \<and>
           CNum l \<in> set (column_values f j) \<and> CNum h \<in> set (column_values f j) \<and>
           (\<forall>v. CNum v \<in> set (column_values f j) \<longrightarrow> l \<le> v \<and> v \<le> h) \<and>
           l < h \<and> l \<le> a \<and> a \<le> b \<and> b \<le> h"
proof -
  obtain j where j: "col_pos (columns f) (sel_col ctl) = Some j"
    and lo: "min_val ctl = series_min (column_values f j)"
    and hi: "max_val ctl = series_max (column_values f j)"
    and rng: "slider (min_val ctl) (max_val ctl) (pick_range u) = Inr (sel_range ctl)"
    using assms(1) by (rule sidebar_filter_SomeE)
  obtain l where l: "min_val ctl = Some l"
    using assms(2) rng slider_None_lo by (cases "min_val ctl") auto
  obtain h where h: "max_val ctl = Some h"
    using assms(2) rng slider_None_hi by (cases "max_val ctl") auto
  from l lo have ml: "CNum l \<in> set (column_values f j) \<and> (\<forall>v. CNum v \<in> set (column_values f j) \<longrightarrow> l \<le> v)"
    using series_min_Some by metis
  from h hi have mh: "CNum h \<in> set (column_values f j) \<and> (\<forall>v. CNum v \<in> set (column_values f j) \<longrightarrow> v \<le> h)"
    using series_max_Some by metis
  from ml mh have "l \<le> h" by blast
  with assms(2) rng l h have "l < h \<and> l \<le> a \<and> a \<le> b \<and> b \<le> h"
    using slider_bounds by metis
  with j l h ml mh show ?thesis by blast
qed

theorem sidebar_slider_bounds_witness:
  "sel_range \<lparr>sel_col = ''x'', min_val = Some 1, max_val = Some 5, sel_range = (Some 2, Some 4)\<rparr> = (Some 2, Some 4)
   \<and> col_pos (columns sample_frame) ''x'' = Some 0
   \<and> CNum 1 \<in> set (column_values sample_frame 0) \<and> CNum 5 \<in> set (column_values sample_frame 0)
   \<and> (1::real) < 5 \<and> (1::real) \<le> 2 \<and> (2::real) \<le> 4 \<and> (4::real) \<le> 5"
proof -
  have e: "sidebar_filter sample_frame demo_ui =
     Inr (Some \<lparr>sel_col = ''x'', min_val = Some 1, max_val = Some 5, sel_range = (Some 2, Some 4)\<rparr>,
          bool_index sample_frame [False, True, True, True, False])"
    by (simp add: frame_simps demo_ui_def)
  have p: "col_pos (columns sample_frame) ''x'' = Some 0" by (simp add: sample_frame_def)
  from sidebar_slider_bounds [OF e] p show ?thesis by auto
qed

text \<open>
  C5: the column the sidebar filters on is one of the numeric columns, and it
  is the one the user picked whenever the pick is a numeric column.
\<close>

theorem sidebar_selected_column:
  assumes "sidebar_filter f u = Inr (Some ctl, g)"
  shows "sel_col ctl \<in> set (numeric_cols f) \<and>
         (\<forall>c \<in> set (numeric_cols f). pick_col u = Some c \<longrightarrow> sel_col ctl = c)"
proof -
  obtain j where ne: "numeric_cols f \<noteq> []"
    and c: "sel_col ctl = selectbox (numeric_cols f) (pick_col u)"
    using assms by (rule sidebar_filter_SomeE)
  from ne c show ?thesis by (auto simp: selectbox_mem selectbox_pick)
qed

theorem sidebar_selected_column_witness:
  "sel_col \<lparr>sel_col = ''x'', min_val = Some 1, max_val = Some 5, sel_range = (Some 2, Some 4)\<rparr> = ''x''
   \<and> ''x'' \<in> set (numeric_cols sample_frame)"
proof -
  have e: "sidebar_filter sample_frame demo_ui =
     Inr (Some \<lparr>sel_col = ''x'', min_val = Some 1, max_val = Some 5, sel_range = (Some 2, Some 4)\<rparr>,
          bool_index sample_frame [False, True, True, True, False])"
    by (simp add: frame_simps demo_ui_def)
  from sidebar_selected_column [OF e] show ?thesis by simp
qed

text \<open>
  C6: widening the range never drops a row: the view for \<open>[a, b]\<close> is a
  subsequence of the view for any \<open>[a', b']\<close> containing it.
\<close>

theorem range_filter_monotone:
  assumes "range_filter f c (Some a, Some b) = Inr g" and "range_filter f c (Some a', Some b') = Inr g'"
    and "a' \<le> a" and "b \<le> b'"
  shows "subseq (rows g) (rows g')"
proof -
  obtain j where j: "col_pos (columns f) c = Some j"
    using range_filter_Inr_pos [OF assms(1)] by blast
  from range_filter_rows [OF j assms(1)] range_filter_rows [OF j assms(2)] assms(3,4)
  show ?thesis
    by (auto intro!: filter_subseq_mono intro: cell_ge_mono cell_le_mono)
qed

theorem range_filter_monotone_witness:
  "subseq (rows (bool_index sample_frame [False, False, True, False, False]))
          (rows (bool_index sample_frame [False, True, True, True, False]))"
proof -
  have g: "range_filter sample_frame ''x'' (Some 3, Some 3) = Inr (bool_index sample_frame [False, False, True, False, False])"
    by (simp add: frame_simps)
  have g': "range_filter sample_frame ''x'' (Some 2, Some 4) = Inr (bool_index sample_frame [False, True, True, True, False])"
    by (simp add: frame_simps)
  show ?thesis by (rule range_filter_monotone [OF g g']) simp_all
qed

text \<open>
  C7: a numeric column with no value at all (every entry NaN) gives NaN
  bounds, the slider holds \<open>(NaN, NaN)\<close>, and since every comparison with NaN
  is false the filtered view is empty.
\<close>

theorem sidebar_all_nan_column_empty:
  assumes "sidebar_filter f u = Inr (Some ctl, g)" and "min_val ctl = None"
  shows "sel_range ctl = (None, None) \<and> rows g = []"
proof -
  obtain j where j: "col_pos (columns f) (sel_col ctl) = Some j"
    and lo: "min_val ctl = series_min (column_values f j)"
    and hi: "max_val ctl = series_max (column_values f j)"
    and rng: "slider (min_val ctl) (max_val ctl) (pick_range u) = Inr (sel_range ctl)"
    and g: "range_filter f (sel_col ctl) (sel_range ctl) = Inr g"
    using assms(1) by (rule sidebar_filter_SomeE)
  from assms(2) lo have "max_val ctl = None" using hi series_min_None series_max_None by metis
  with assms(2) rng have r: "sel_range ctl = (None, None)" by (simp add: slider_None_lo)
  from range_filter_rows [OF j g] r have "rows g = []" by simp
  with r show ?thesis by simp
qed

theorem sidebar_all_nan_column_empty_witness:
  "sidebar_filter nan_frame demo_ui =
     Inr (Some \<lparr>sel_col = ''z'', min_val = None, max_val = None, sel_range = (None, None)\<rparr>,
          nan_frame\<lparr>rows := []\<rparr>)
   \<and> rows (nan_frame\<lparr>rows := []\<rparr>) = []"
proof -
  have e: "sidebar_filter nan_frame demo_ui =
     Inr (Some \<lparr>sel_col = ''z'', min_val = None, max_val = None, sel_range = (None, None)\<rparr>,
          nan_frame\<lparr>rows := []\<rparr>)"
    by (simp add: frame_simps demo_ui_def nan_frame_def)
  from sidebar_all_nan_column_empty [OF e] e show ?thesis by simp
qed

end
