(* ===== verification/Missing.thy ===== *)
theory Missing
  imports Frame
begin

text \<open>
  The "Dataset Info" and "Missing Values" sections of \<open>src/app.py\<close>
  (lines 22--36): the per-column missing counts \<open>df.isnull().sum()\<close>
  (line 30), the "Missing Cells" metric \<open>df.isnull().sum().sum()\<close> (line 26),
  the listing restricted to the columns with a positive count (line 31) and
  the choice between showing that listing and the success message
  (lines 33--36).
\<close>

section \<open>Definitions\<close>

text \<open>\<open>df.isnull().sum()\<close>: a Series of counts indexed by the column labels.\<close>

definition isnull_sum :: "frame \<Rightarrow> (label \<times> nat) list" where
  "isnull_sum f =
     map (\<lambda>j. (columns f ! j, length (filter is_null (column_values f j)))) [0..<length (columns f)]"

text \<open>\<open>df.isnull().sum().sum()\<close>.\<close>

definition missing_cells :: "frame \<Rightarrow> nat" where
  "missing_cells f = sum_list (map snd (isnull_sum f))"

text \<open>\<open>missing_df[missing_df > 0]\<close>.\<close>

definition missing_nonzero :: "frame \<Rightarrow> (label \<times> nat) list" where
  "missing_nonzero f = filter (\<lambda>p. 0 < snd p) (isnull_sum f)"

datatype missing_view = MissingList "(label \<times> nat) list" | NoMissing

text \<open>Lines 33--36: \<open>st.write(missing_df)\<close> or \<open>st.success(...)\<close>.\<close>

definition missing_section :: "frame \<Rightarrow> missing_view" where
  "missing_section f =
     (let m = missing_nonzero f in if 0 < length m then MissingList m else NoMissing)"

section \<open>Lemmas\<close>

lemma length_filter_sum:
  "length (filter P xs) = (\<Sum>x\<leftarrow>xs. if P x then 1 else 0 :: nat)"
  by (induction xs) auto

lemma sum_list_swap:
  "(\<Sum>j\<leftarrow>js. \<Sum>x\<leftarrow>xs. g j x) = (\<Sum>x\<leftarrow>xs. \<Sum>j\<leftarrow>js. g j x :: nat)"
  by (induction xs) (simp_all add: sum_list_addf)

lemma sum_upt_nth_filter:
  "length r = n \<Longrightarrow> (\<Sum>j\<leftarrow>[0..<n]. if P (r ! j) then 1 else 0 :: nat) = length (filter P r)"
proof -
  assume "length r = n"
  then have "map (\<lambda>j. if P (r ! j) then 1 else 0 :: nat) [0..<n] = map (\<lambda>x. if P x then 1 else 0) r"
    by (simp add: list_eq_iff_nth_eq)
  then show ?thesis by (simp add: length_filter_sum)
qed

lemma sum_length_filter_concat:
  "(\<Sum>x\<leftarrow>xs. length (filter P (g x))) = length (filter P (concat (map g xs)))"
  by (induction xs) simp_all

lemma missing_cells_sum:
  "missing_cells f = (\<Sum>j\<leftarrow>[0..<length (columns f)]. length (filter is_null (column_values f j)))"
  by (simp add: missing_cells_def isnull_sum_def comp_def)

lemma missing_nonzero_isnull_sum:
  "set (missing_nonzero f) \<subseteq> set (isnull_sum f)"
  by (auto simp: missing_nonzero_def)

declare isnull_sum_def [frame_simps] missing_cells_def [frame_simps]
  missing_nonzero_def [frame_simps] missing_section_def [frame_simps]

section \<open>Properties of the missing-value report\<close>

text \<open>
  C21: on a well-formed table the "Missing Cells" metric is the number of
  NaN cells of the whole table.
\<close>

theorem missing_cells_count:
  assumes "wf_frame f"
  shows "missing_cells f = length (filter is_null (concat (map snd (rows f))))"
proof -
  let ?n = "length (columns f)"
  have "missing_cells f = (\<Sum>j\<leftarrow>[0..<?n]. \<Sum>x\<leftarrow>rows f. if is_null (snd x ! j) then 1 else 0)"
    by (simp add: missing_cells_sum column_values_def length_filter_sum split_def comp_def)
  also have "\<dots> = (\<Sum>x\<leftarrow>rows f. \<Sum>j\<leftarrow>[0..<?n]. if is_null (snd x ! j) then 1 else 0)"
    by (rule sum_list_swap)
  also have "\<dots> = (\<Sum>x\<leftarrow>rows f. length (filter is_null (snd x)))"
  proof (rule arg_cong [where f = sum_list], rule map_cong [OF refl])
    fix x assume "x \<in> set (rows f)"
    with assms have "length (snd x) = ?n" by (cases x) (auto dest: wf_frame_row_length)
    then show "(\<Sum>j\<leftarrow>[0..<?n]. if is_null (snd x ! j) then 1 else 0) = length (filter is_null (snd x))"
      by (rule sum_upt_nth_filter)
  qed
  also have "\<dots> = length (filter is_null (concat (map snd (rows f))))"
    by (rule sum_length_filter_concat)
  finally show ?thesis .
qed

theorem missing_cells_count_witness:
  "wf_frame sample_frame \<and> missing_cells sample_frame = 1"
proof -
  have "missing_cells sample_frame = length (filter is_null (concat (map snd (rows sample_frame))))"
    by (rule missing_cells_count [OF wf_sample_frame])
  then have "missing_cells sample_frame = 1" by (simp add: sample_frame_def)
  with wf_sample_frame show ?thesis by blast
qed

text \<open>
  C22: the success message is shown exactly when the table has no missing
  cell; otherwise the listing names exactly the columns with a positive
  count, each with its count.
\<close>

theorem missing_section_cases:
  "(missing_section f = NoMissing \<longleftrightarrow> missing_cells f = 0) \<and>
   (missing_section f \<noteq> NoMissing \<longrightarrow>
      missing_section f = MissingList (filter (\<lambda>p. 0 < snd p) (isnull_sum f)))"
proof -
  have "missing_nonzero f = [] \<longleftrightarrow> missing_cells f = 0"
    by (auto simp: missing_cells_def missing_nonzero_def filter_empty_conv)
  then show ?thesis
    by (auto simp: missing_section_def missing_nonzero_def Let_def)
qed

theorem missing_section_cases_witness:
  "missing_section sample_frame = MissingList [(''y'', 1)]"
proof -
  have "missing_section sample_frame \<noteq> NoMissing"
    by (simp add: frame_simps upt_conv_Cons)
  with missing_section_cases [of sample_frame]
  have "missing_section sample_frame = MissingList (filter (\<lambda>p. 0 < snd p) (isnull_sum sample_frame))"
    by blast
  then show ?thesis by (simp add: frame_simps upt_conv_Cons)
qed

end
