(* ===== verification/Stats.thy ===== *)
theory Stats
  imports Frame
begin

text \<open>
  The "Summary Statistics" section of \<open>src/app.py\<close> (line 40):
  \<open>df.describe()\<close>. With at least one numeric column it reports, per numeric
  column and over its non-missing values, the count, the mean, the sample
  standard deviation (\<open>ddof = 1\<close>), the minimum, the 25\%, 50\% and 75\%
  percentiles by linear interpolation between order statistics (numpy's
  default), and the maximum; an undefined statistic is NaN, here \<open>None\<close>.
  Without a numeric column it describes every column as categorical: count,
  number of distinct values, the most frequent value and its frequency.
\<close>

section \<open>Statistics of a sample\<close>

definition mean :: "real list \<Rightarrow> real option" where
  "mean xs = (if xs = [] then None else Some (sum_list xs / real (length xs)))"

text \<open>\<open>nanvar(ddof=1)\<close>: undefined for fewer than two values.\<close>

definition sample_var :: "real list \<Rightarrow> real option" where
  "sample_var xs =
     (if length xs < 2 then None
      else let m = sum_list xs / real (length xs)
           in Some ((\<Sum>x\<leftarrow>xs. (x - m)\<^sup>2) / real (length xs - 1)))"

definition sample_std :: "real list \<Rightarrow> real option" where
  "sample_std xs = map_option sqrt (sample_var xs)"

text \<open>
  Linear interpolation in the sorted sample \<open>s\<close> at the virtual index
  \<open>h / d\<close>: below it \<open>s ! lo\<close> with \<open>lo = \<lfloor>h / d\<rfloor>\<close>, a fraction \<open>t\<close> of the
  way to \<open>s ! (lo + 1)\<close>.
\<close>

definition lerp_at :: "real list \<Rightarrow> nat \<Rightarrow> nat \<Rightarrow> real" where
  "lerp_at s d h =
     (let lo = h div d; t = real (h mod d) / real d
      in if lo + 1 < length s then s ! lo + t * (s ! (lo + 1) - s ! lo) else s ! lo)"

text \<open>The \<open>k/d\<close> quantile, virtual index \<open>(n - 1) * k / d\<close> (numpy's "linear").\<close>

definition quantile :: "nat \<Rightarrow> nat \<Rightarrow> real list \<Rightarrow> real option" where
  "quantile k d xs = (if xs = [] then None else Some (lerp_at (sort xs) d ((length xs - 1) * k)))"

section \<open>describe()\<close>

record num_summary =
  cnt :: nat
  avg :: "real option"
  std :: "real option"
  smin :: "real option"
  q25 :: "real option"
  q50 :: "real option"
  q75 :: "real option"
  smax :: "real option"

definition describe_numeric :: "cell list \<Rightarrow> num_summary" where
  "describe_numeric xs =
     (let v = nums_of xs in
      \<lparr>cnt = length v, avg = mean v, std = sample_std v, smin = series_min xs,
       q25 = quantile 1 4 v, q50 = quantile 2 4 v, q75 = quantile 3 4 v, smax = series_max xs\<rparr>)"

record obj_summary =
  ocount :: nat
  unique :: nat
  top :: "cell option"
  freq :: "nat option"

text \<open>
  The most frequent value, ties broken by first occurrence (the order
  \<open>value_counts\<close> keeps for equal counts).
\<close>

definition top_value :: "cell list \<Rightarrow> cell" where
  "top_value v = hd [x\<leftarrow>remdups v. count_list v x = Max (set (map (count_list v) v))]"

definition describe_object :: "cell list \<Rightarrow> obj_summary" where
  "describe_object xs =
     (let v = filter (\<lambda>x. \<not> is_null x) xs in
      if v = [] then \<lparr>ocount = 0, unique = 0, top = None, freq = None\<rparr>
      else \<lparr>ocount = length v, unique = length (remdups v), top = Some (top_value v),
            freq = Some (count_list v (top_value v))\<rparr>)"

datatype summary =
  NumericSummary "(label \<times> num_summary) list"
| ObjectSummary "(label \<times> obj_summary) list"

text \<open>
  \<open>df.describe()\<close>: the numeric columns (\<open>np.number\<close>) when there is one,
  otherwise every column described as categorical.
\<close>

definition describe :: "frame \<Rightarrow> summary" where
  "describe f =
     (let js = filter (\<lambda>j. is_numeric_dtype (dtypes f ! j)) [0..<length (columns f)] in
      if js \<noteq> [] then NumericSummary (map (\<lambda>j. (columns f ! j, describe_numeric (column_values f j))) js)
      else ObjectSummary (map (\<lambda>j. (columns f ! j, describe_object (column_values f j)))
                              [0..<length (columns f)]))"

section \<open>Lemmas\<close>

lemma lerp_at_lo:
  assumes "sorted s" and "0 < d" and "h div d < length s"
  shows "s ! (h div d) \<le> lerp_at s d h"
proof -
  have t: "0 \<le> real (h mod d) / real d" by simp
  show ?thesis
  proof (cases "h div d + 1 < length s")
    case True
    with assms(1) have "s ! (h div d) \<le> s ! (h div d + 1)" by (simp add: sorted_nth_mono)
    with t True show ?thesis by (simp add: lerp_at_def Let_def)
  qed (simp add: lerp_at_def Let_def)
qed

lemma lerp_at_split:
  "h div d + 1 < length s \<Longrightarrow>
     lerp_at s d h = s ! (h div d) + real (h mod d) / real d * (s ! (h div d + 1) - s ! (h div d))"
  "\<not> h div d + 1 < length s \<Longrightarrow> lerp_at s d h = s ! (h div d)"
  by (simp_all add: lerp_at_def Let_def)

lemma lerp_at_hi:
  assumes "sorted s" and "0 < d" and "h div d + 1 < length s"
  shows "lerp_at s d h \<le> s ! (h div d + 1)"
proof -
  define t where "t = real (h mod d) / real d"
  define \<delta> where "\<delta> = s ! (h div d + 1) - s ! (h div d)"
  have "t \<le> 1" "0 \<le> t" using assms(2) by (simp_all add: t_def)
  moreover from assms(1,3) have "0 \<le> \<delta>" by (simp add: \<delta>_def sorted_nth_mono)
  ultimately have "t * \<delta> \<le> \<delta>" by (simp add: mult_left_le_one_le)
  then show ?thesis using lerp_at_split(1) [OF assms(3)] by (simp add: t_def \<delta>_def)
qed

lemma lerp_at_mono:
  assumes s: "sorted s" and d: "0 < d" and le: "h1 \<le> h2" and n: "h2 div d < length s"
  shows "lerp_at s d h1 \<le> lerp_at s d h2"
proof -
  have lo: "h1 div d \<le> h2 div d" using le by (rule div_le_mono)
  show ?thesis
  proof (cases "h1 div d = h2 div d")
    case True
    have "h1 mod d \<le> h2 mod d"
      using le True by (metis add_le_cancel_left div_mult_mod_eq)
    then have t: "real (h1 mod d) / real d \<le> real (h2 mod d) / real d"
      using d by (simp add: divide_right_mono)
    show ?thesis
    proof (cases "h2 div d + 1 < length s")
      case True
      define \<delta> where "\<delta> = s ! (h2 div d + 1) - s ! (h2 div d)"
      from s True have "0 \<le> \<delta>" by (simp add: \<delta>_def sorted_nth_mono)
      with t have "real (h1 mod d) / real d * \<delta> \<le> real (h2 mod d) / real d * \<delta>"
        by (rule mult_right_mono)
      with True \<open>h1 div d = h2 div d\<close> show ?thesis
        using lerp_at_split(1) [of h1 d s] lerp_at_split(1) [of h2 d s] by (simp add: \<delta>_def)
    next
      case False
      with \<open>h1 div d = h2 div d\<close> show ?thesis by (simp add: lerp_at_split(2))
    qed
  next
    case False
    with lo have lt: "h1 div d + 1 \<le> h2 div d" by simp
    with n have "lerp_at s d h1 \<le> s ! (h1 div d + 1)" by (intro lerp_at_hi [OF s d]) simp
    also have "\<dots> \<le> s ! (h2 div d)" using lt n s by (simp add: sorted_nth_mono)
    also have "\<dots> \<le> lerp_at s d h2" by (rule lerp_at_lo [OF s d n])
    finally show ?thesis .
  qed
qed

lemma lerp_at_0: "0 < d \<Longrightarrow> lerp_at s d 0 = s ! 0"
  by (simp add: lerp_at_def)

lemma lerp_at_top:
  "0 < d \<Longrightarrow> s \<noteq> [] \<Longrightarrow> lerp_at s d ((length s - 1) * d) = s ! (length s - 1)"
  by (simp add: lerp_at_def)

lemma sort_nth_0_Min:
  assumes "xs \<noteq> []"
  shows "sort xs ! 0 = Min (set xs)"
proof (rule Min_eqI [symmetric])
  show "finite (set xs)" by simp
  have "0 < length (sort xs)" using assms by simp
  then have "sort xs ! 0 \<in> set (sort xs)" by (rule nth_mem)
  then show "sort xs ! 0 \<in> set xs" by simp
  fix y assume "y \<in> set xs"
  then have "y \<in> set (sort xs)" by simp
  then obtain i where i: "i < length (sort xs)" "sort xs ! i = y"
    using in_set_conv_nth [of y "sort xs"] by blast
  have "sort xs ! 0 \<le> sort xs ! i" using i(1) by (intro sorted_nth_mono) simp_all
  with i(2) show "sort xs ! 0 \<le> y" by simp
qed

lemma sort_nth_last_Max:
  assumes "xs \<noteq> []"
  shows "sort xs ! (length xs - 1) = Max (set xs)"
proof (rule Max_eqI [symmetric])
  show "finite (set xs)" by simp
  have "length xs - 1 < length (sort xs)" using assms by simp
  then have "sort xs ! (length xs - 1) \<in> set (sort xs)" by (rule nth_mem)
  then show "sort xs ! (length xs - 1) \<in> set xs" by simp
  fix y assume "y \<in> set xs"
  then have "y \<in> set (sort xs)" by simp
  then obtain i where i: "i < length (sort xs)" "sort xs ! i = y"
    using in_set_conv_nth [of y "sort xs"] by blast
  have "sort xs ! i \<le> sort xs ! (length xs - 1)" using i(1) by (intro sorted_nth_mono) simp_all
  with i(2) show "y \<le> sort xs ! (length xs - 1)" by simp
qed

lemma series_min_Min:
  "nums_of xs \<noteq> [] \<Longrightarrow> series_min xs = Some (Min (set (nums_of xs)))"
  by (cases "nums_of xs") (simp_all add: series_min_def flip: Min.set_eq_fold)

lemma series_max_Max:
  "nums_of xs \<noteq> [] \<Longrightarrow> series_max xs = Some (Max (set (nums_of xs)))"
  by (cases "nums_of xs") (simp_all add: series_max_def flip: Max.set_eq_fold)

lemma sort_Nil_iff [simp]: "sort xs = [] \<longleftrightarrow> xs = []"
  by (metis length_0_conv length_sort)

lemma lerp_chain:
  assumes "sorted s" and "s \<noteq> []" and "0 < d" and "h1 \<le> h2" and "h2 \<le> (length s - 1) * d"
  shows "lerp_at s d h1 \<le> lerp_at s d h2"
proof (rule lerp_at_mono [OF assms(1,3,4)])
  have "h2 div d \<le> ((length s - 1) * d) div d" using assms(5) by (rule div_le_mono)
  also have "\<dots> = length s - 1" using assms(3) by simp
  finally have "h2 div d \<le> length s - 1" .
  moreover have "0 < length s" using assms(2) by simp
  ultimately show "h2 div d < length s" by arith
qed

lemma quantile_Some:
  "xs \<noteq> [] \<Longrightarrow> quantile k d xs = Some (lerp_at (sort xs) d ((length xs - 1) * k))"
  by (simp add: quantile_def)

lemma describe_numeric_min:
  "nums_of xs \<noteq> [] \<Longrightarrow> smin (describe_numeric xs) = Some (lerp_at (sort (nums_of xs)) 4 0)"
  by (simp add: describe_numeric_def Let_def series_min_Min lerp_at_0 sort_nth_0_Min)

lemma describe_numeric_max:
  "nums_of xs \<noteq> [] \<Longrightarrow>
     smax (describe_numeric xs) = Some (lerp_at (sort (nums_of xs)) 4 ((length (nums_of xs) - 1) * 4))"
proof -
  assume ne: "nums_of xs \<noteq> []"
  have "lerp_at (sort (nums_of xs)) 4 ((length (sort (nums_of xs)) - 1) * 4) =
        sort (nums_of xs) ! (length (sort (nums_of xs)) - 1)"
    using ne by (intro lerp_at_top) simp_all
  with ne sort_nth_last_Max [OF ne] show ?thesis
    by (simp add: describe_numeric_def Let_def series_max_Max)
qed

lemma cnt_describe_numeric [simp]: "cnt (describe_numeric xs) = length (nums_of xs)"
  by (simp add: describe_numeric_def Let_def)

lemmas stat_defs [stat_simps] = describe_numeric_def quantile_def lerp_at_def mean_def
  sample_var_def sample_std_def describe_def describe_object_def top_value_def Let_def

section \<open>Properties of the summary statistics\<close>

text \<open>
  C25: for a column with at least one value, the five order statistics
  \<open>describe()\<close> reports are defined and ordered:
  \<open>min \<le> 25\% \<le> 50\% \<le> 75\% \<le> max\<close>.
\<close>

theorem describe_quantiles_ordered:
  assumes "0 < cnt (describe_numeric xs)"
  shows "\<exists>a b c d e. smin (describe_numeric xs) = Some a \<and> q25 (describe_numeric xs) = Some b \<and>
           q50 (describe_numeric xs) = Some c \<and> q75 (describe_numeric xs) = Some d \<and>
           smax (describe_numeric xs) = Some e \<and> a \<le> b \<and> b \<le> c \<and> c \<le> d \<and> d \<le> e"
proof -
  let ?v = "nums_of xs"
  let ?s = "sort ?v" and ?m = "length ?v - 1"
  have ne: "?v \<noteq> []" using assms by simp
  have s: "sorted ?s" "?s \<noteq> []" "length ?s - 1 = ?m" using ne by simp_all
  have q: "q25 (describe_numeric xs) = Some (lerp_at ?s 4 (?m * 1))"
    "q50 (describe_numeric xs) = Some (lerp_at ?s 4 (?m * 2))"
    "q75 (describe_numeric xs) = Some (lerp_at ?s 4 (?m * 3))"
    using ne by (simp_all add: describe_numeric_def Let_def quantile_Some)
  have "lerp_at ?s 4 0 \<le> lerp_at ?s 4 (?m * 1)"
    using s by (intro lerp_chain) simp_all
  moreover have "lerp_at ?s 4 (?m * 1) \<le> lerp_at ?s 4 (?m * 2)"
    using s by (intro lerp_chain) simp_all
  moreover have "lerp_at ?s 4 (?m * 2) \<le> lerp_at ?s 4 (?m * 3)"
    using s by (intro lerp_chain) simp_all
  moreover have "lerp_at ?s 4 (?m * 3) \<le> lerp_at ?s 4 (?m * 4)"
    using s by (intro lerp_chain) simp_all
  ultimately show ?thesis
    using q describe_numeric_min [OF ne] describe_numeric_max [OF ne] by fastforce
qed

theorem describe_quantiles_ordered_witness:
  "0 < cnt (describe_numeric (column_values sample_frame 1)) \<and>
   q25 (describe_numeric (column_values sample_frame 1)) = Some (7 / 2) \<and>
   q75 (describe_numeric (column_values sample_frame 1)) = Some (17 / 2) \<and>
   (7 / 2 :: real) \<le> 17 / 2"
proof -
  have c: "0 < cnt (describe_numeric (column_values sample_frame 1))" by (simp add: frame_simps)
  have "q25 (describe_numeric (column_values sample_frame 1)) = Some (7 / 2)"
    "q75 (describe_numeric (column_values sample_frame 1)) = Some (17 / 2)"
    by (simp_all add: frame_simps stat_simps)
  with describe_quantiles_ordered [OF c] c show ?thesis by auto
qed



end
