(* ===== verification/Corr.thy ===== *)
theory Corr
  imports Frame
begin

text \<open>
  The "Correlation Matrix" section of \<open>src/app.py\<close> (line 87):
  \<open>df[numeric_cols].corr()\<close>. pandas computes it with \<open>nancorr\<close>
  (\<open>min_periods = 1\<close>): for every pair of columns \<open>(xi, yi)\<close> with
  \<open>yi \<le> xi\<close> it runs Welford's online update over the rows where both
  values are present, then stores \<open>covxy / sqrt(ssqdmx * ssqdmy)\<close>, or NaN
  when there is no observation or the divisor is zero, in both
  \<open>result[xi, yi]\<close> and \<open>result[yi, xi]\<close>. The theory defines that routine
  and, as the reference, the two-pass Pearson coefficient over the
  pairwise-complete observations that the specification names.
\<close>

section \<open>Pairwise-complete observations\<close>

fun pair_obs :: "cell list \<Rightarrow> cell list \<Rightarrow> (real \<times> real) list" where
  "pair_obs (CNum a # xs) (CNum b # ys) = (a, b) # pair_obs xs ys"
| "pair_obs (x # xs) (y # ys) = pair_obs xs ys"
| "pair_obs _ _ = []"

section \<open>The reference: two-pass Pearson correlation\<close>

definition pearson :: "(real \<times> real) list \<Rightarrow> real option" where
  "pearson ps =
     (if length ps < 1 then None
      else let n = real (length ps);
               mx = (\<Sum>p\<leftarrow>ps. fst p) / n; my = (\<Sum>p\<leftarrow>ps. snd p) / n;
               sxx = (\<Sum>p\<leftarrow>ps. (fst p - mx)\<^sup>2); syy = (\<Sum>p\<leftarrow>ps. (snd p - my)\<^sup>2);
               sxy = (\<Sum>p\<leftarrow>ps. (fst p - mx) * (snd p - my));
               dv = sqrt (sxx * syy)
           in if dv \<noteq> 0 then Some (sxy / dv) else None)"

section \<open>pandas' routine: Welford's online update\<close>

record welford =
  nobs :: nat
  meanx :: real
  meany :: real
  ssqdmx :: real
  ssqdmy :: real
  covxy :: real

definition welford_init :: welford where
  "welford_init = \<lparr>nobs = 0, meanx = 0, meany = 0, ssqdmx = 0, ssqdmy = 0, covxy = 0\<rparr>"

definition welford_step :: "welford \<Rightarrow> real \<times> real \<Rightarrow> welford" where
  "welford_step st p =
     (let vx = fst p; vy = snd p; n = nobs st + 1;
          dx = vx - meanx st; dy = vy - meany st;
          mx = meanx st + 1 / real n * dx; my = meany st + 1 / real n * dy
      in \<lparr>nobs = n, meanx = mx, meany = my,
          ssqdmx = ssqdmx st + (vx - mx) * dx, ssqdmy = ssqdmy st + (vy - my) * dy,
          covxy = covxy st + (vx - mx) * dy\<rparr>)"

definition nancorr :: "(real \<times> real) list \<Rightarrow> real option" where
  "nancorr ps =
     (let st = fold (\<lambda>p st. welford_step st p) ps welford_init
      in if nobs st < 1 then None
         else let dv = sqrt (ssqdmx st * ssqdmy st)
              in if dv \<noteq> 0 then Some (covxy st / dv) else None)"

section \<open>The matrix\<close>

record corr_matrix =
  labels :: "label list"
  cells :: "real option list list"

definition nancorr_cell :: "frame \<Rightarrow> nat \<Rightarrow> nat \<Rightarrow> real option" where
  "nancorr_cell g xi yi = nancorr (pair_obs (column_values g xi) (column_values g yi))"

text \<open>The lower triangle is computed and mirrored, as the two nested loops of \<open>nancorr\<close> do.\<close>

definition corr :: "frame \<Rightarrow> corr_matrix" where
  "corr g =
     (let n = length (columns g)
      in \<lparr>labels = columns g,
          cells = map (\<lambda>xi. map (\<lambda>yi. if yi \<le> xi then nancorr_cell g xi yi else nancorr_cell g yi xi)
                                [0..<n]) [0..<n]\<rparr>)"

text \<open>\<open>df[cols].corr()\<close>.\<close>

definition corr_columns :: "frame \<Rightarrow> label list \<Rightarrow> error + corr_matrix" where
  "corr_columns f cs = (case select_columns f cs of Inl e \<Rightarrow> Inl e | Inr g \<Rightarrow> Inr (corr g))"

text \<open>
  What Welford's loop keeps after consuming the observations \<open>ps\<close>, in terms
  of raw sums (used in statements and proofs).
\<close>

definition welford_inv :: "(real \<times> real) list \<Rightarrow> welford \<Rightarrow> bool" where
  "welford_inv ps st \<longleftrightarrow>
     (let n = real (length ps); sx = (\<Sum>p\<leftarrow>ps. fst p); sy = (\<Sum>p\<leftarrow>ps. snd p)
      in nobs st = length ps \<and> meanx st = sx / n \<and> meany st = sy / n \<and>
         ssqdmx st = (\<Sum>p\<leftarrow>ps. (fst p)\<^sup>2) - sx\<^sup>2 / n \<and>
         ssqdmy st = (\<Sum>p\<leftarrow>ps. (snd p)\<^sup>2) - sy\<^sup>2 / n \<and>
         covxy st = (\<Sum>p\<leftarrow>ps. fst p * snd p) - sx * sy / n)"

text \<open>The numeric columns \<open>x\<close>, \<open>y\<close> of the sample table, as \<open>df[[x, y]]\<close> returns them.\<close>

definition xy_frame :: frame where
  "xy_frame =
     \<lparr>columns = [''x'', ''y''], dtypes = [Int64, Float64],
      rows = [(0, [CNum 1, CNum 2]), (1, [CNum 2, CNum 4]), (2, [CNum 3, CNaN]),
              (3, [CNum 4, CNum 8]), (4, [CNum 5, CNum 10])]\<rparr>"

section \<open>Lemmas\<close>

lemma pair_obs_swap:
  "pair_obs ys xs = map prod.swap (pair_obs xs ys)"
proof (induction xs arbitrary: ys)
  case Nil
  then show ?case by (cases ys) auto
next
  case (Cons x xs)
  show ?case
  proof (cases ys)
    case (Cons y ys')
    then show ?thesis by (cases x; cases y) (simp_all add: Cons.IH)
  qed simp
qed

lemma pair_obs_diag:
  "pair_obs xs xs = map (\<lambda>v. (v, v)) (nums_of xs)"
proof (induction xs)
  case (Cons x xs)
  then show ?case by (cases x) auto
qed simp

lemma pearson_swap:
  "pearson (map prod.swap ps) = pearson ps"
  by (simp add: pearson_def Let_def comp_def mult.commute)

lemma welford_step_fields:
  "nobs (welford_step st p) = nobs st + 1"
  "meanx (welford_step st p) = meanx st + 1 / real (nobs st + 1) * (fst p - meanx st)"
  "meany (welford_step st p) = meany st + 1 / real (nobs st + 1) * (snd p - meany st)"
  "ssqdmx (welford_step st p) = ssqdmx st + (fst p - meanx (welford_step st p)) * (fst p - meanx st)"
  "ssqdmy (welford_step st p) = ssqdmy st + (snd p - meany (welford_step st p)) * (snd p - meany st)"
  "covxy (welford_step st p) = covxy st + (fst p - meanx (welford_step st p)) * (snd p - meany st)"
  by (simp_all add: welford_step_def Let_def)

text \<open>The algebra of one update, for a non-empty prefix of \<open>n\<close> observations.\<close>

lemma welford_mean_alg:
  "0 < n \<Longrightarrow> s / n + 1 / (n + 1) * (a - s / n) = (s + a) / (n + 1 :: real)"
proof -
  assume n: "0 < n"
  then have "n \<noteq> 0" "n + 1 \<noteq> 0" by simp_all
  then show ?thesis by (simp add: divide_simps) (simp add: algebra_simps)
qed
lemma welford_ssq_alg:
  "0 < n \<Longrightarrow> (q - s\<^sup>2 / n) + (a - (s + a) / (n + 1)) * (a - s / n) = (q + a\<^sup>2) - (s + a)\<^sup>2 / (n + 1 :: real)"
proof -
  assume n: "0 < n"
  then have "n \<noteq> 0" "n + 1 \<noteq> 0" by simp_all
  then show ?thesis by (simp add: divide_simps power2_eq_square) (simp add: algebra_simps)
qed
lemma welford_cov_alg:
  "0 < n \<Longrightarrow> (c - s * t / n) + (a - (s + a) / (n + 1)) * (b - t / n) =
     (c + a * b) - (s + a) * (t + b) / (n + 1 :: real)"
proof -
  assume n: "0 < n"
  then have "n \<noteq> 0" "n + 1 \<noteq> 0" by simp_all
  then show ?thesis by (simp add: divide_simps) (simp add: algebra_simps)
qed

lemma welford_inv_init: "welford_inv [] welford_init"
  by (simp add: welford_inv_def welford_init_def)

lemma welford_inv_step:
  assumes inv: "welford_inv ps st"
  shows "welford_inv (ps @ [q]) (welford_step st q)"
proof (cases "ps = []")
  case True
  with inv show ?thesis
    by (simp add: welford_inv_def welford_step_fields power2_eq_square)
next
  case False
  let ?n = "real (length ps)"
  let ?sx = "\<Sum>p\<leftarrow>ps. fst p" and ?sy = "\<Sum>p\<leftarrow>ps. snd p"
  have n: "0 < ?n" using False by simp
  have st: "nobs st = length ps" "meanx st = ?sx / ?n" "meany st = ?sy / ?n"
    "ssqdmx st = (\<Sum>p\<leftarrow>ps. (fst p)\<^sup>2) - ?sx\<^sup>2 / ?n"
    "ssqdmy st = (\<Sum>p\<leftarrow>ps. (snd p)\<^sup>2) - ?sy\<^sup>2 / ?n"
    "covxy st = (\<Sum>p\<leftarrow>ps. fst p * snd p) - ?sx * ?sy / ?n"
    using inv by (simp_all add: welford_inv_def Let_def)
  have len: "real (nobs st + 1) = ?n + 1" using st(1) by simp
  have "meanx (welford_step st q) = ?sx / ?n + 1 / (?n + 1) * (fst q - ?sx / ?n)"
    by (simp add: welford_step_fields st len)
  also have "\<dots> = (?sx + fst q) / (?n + 1)" by (rule welford_mean_alg [OF n])
  finally have mx: "meanx (welford_step st q) = (?sx + fst q) / (?n + 1)" .
  have "meany (welford_step st q) = ?sy / ?n + 1 / (?n + 1) * (snd q - ?sy / ?n)"
    by (simp add: welford_step_fields st len)
  also have "\<dots> = (?sy + snd q) / (?n + 1)" by (rule welford_mean_alg [OF n])
  finally have my: "meany (welford_step st q) = (?sy + snd q) / (?n + 1)" .
  have sx: "ssqdmx (welford_step st q) = ((\<Sum>p\<leftarrow>ps. (fst p)\<^sup>2) + (fst q)\<^sup>2) - (?sx + fst q)\<^sup>2 / (?n + 1)"
    using welford_ssq_alg [OF n] by (simp add: welford_step_fields(4) mx st)
  have sy: "ssqdmy (welford_step st q) = ((\<Sum>p\<leftarrow>ps. (snd p)\<^sup>2) + (snd q)\<^sup>2) - (?sy + snd q)\<^sup>2 / (?n + 1)"
    using welford_ssq_alg [OF n] by (simp add: welford_step_fields(5) my st)
  have cv: "covxy (welford_step st q) = ((\<Sum>p\<leftarrow>ps. fst p * snd p) + fst q * snd q) -
              (?sx + fst q) * (?sy + snd q) / (?n + 1)"
    using welford_cov_alg [OF n] by (simp add: welford_step_fields(6) mx st)
  show ?thesis
    using mx my sx sy cv st(1)
    by (simp add: welford_inv_def Let_def welford_step_fields(1) add.commute)
qed

lemma welford_inv_fold:
  "welford_inv ps (fold (\<lambda>p st. welford_step st p) ps welford_init)"
proof (induction ps rule: rev_induct)
  case Nil
  then show ?case by (simp add: welford_inv_init)
next
  case (snoc q ps)
  then show ?case by (simp add: welford_inv_step)
qed

lemma sum_sq_dev_raw:
  assumes "xs \<noteq> []"
  shows "(\<Sum>x\<leftarrow>xs. (f x - (\<Sum>x\<leftarrow>xs. f x) / real (length xs))\<^sup>2) =
     (\<Sum>x\<leftarrow>xs. (f x)\<^sup>2) - (\<Sum>x\<leftarrow>xs. f x)\<^sup>2 / real (length xs)"
proof -
  let ?s = "\<Sum>x\<leftarrow>xs. f x" and ?n = "real (length xs)"
  have n: "0 < ?n" using assms by simp
  have "(\<Sum>x\<leftarrow>xs. (f x - ?s / ?n)\<^sup>2) = (\<Sum>x\<leftarrow>xs. (f x)\<^sup>2) - 2 * (?s / ?n) * ?s + ?n * (?s / ?n)\<^sup>2"
    by (rule sum_list_sq_shift)
  also have "\<dots> = (\<Sum>x\<leftarrow>xs. (f x)\<^sup>2) - ?s\<^sup>2 / ?n"
    using n by (simp add: power2_eq_square field_simps)
  finally show ?thesis .
qed

lemma sum_co_dev_raw:
  assumes "xs \<noteq> []"
  shows "(\<Sum>x\<leftarrow>xs. (f x - (\<Sum>x\<leftarrow>xs. f x) / real (length xs)) * (g x - (\<Sum>x\<leftarrow>xs. g x) / real (length xs))) =
     (\<Sum>x\<leftarrow>xs. f x * g x) - (\<Sum>x\<leftarrow>xs. f x) * (\<Sum>x\<leftarrow>xs. g x) / real (length xs)"
proof -
  let ?s = "\<Sum>x\<leftarrow>xs. f x" and ?t = "\<Sum>x\<leftarrow>xs. g x" and ?n = "real (length xs)"
  have n: "0 < ?n" using assms by simp
  have "(\<Sum>x\<leftarrow>xs. (f x - ?s / ?n) * (g x - ?t / ?n)) =
        (\<Sum>x\<leftarrow>xs. f x * g x) - ?s / ?n * ?t - ?t / ?n * ?s + ?n * (?s / ?n) * (?t / ?n)"
    by (rule sum_list_prod_shift)
  also have "\<dots> = (\<Sum>x\<leftarrow>xs. f x * g x) - ?s * ?t / ?n"
    using n by (simp add: field_simps)
  finally show ?thesis .
qed

text \<open>pandas' Welford routine computes the two-pass Pearson coefficient.\<close>

lemma nancorr_pearson: "nancorr ps = pearson ps"
proof (cases "ps = []")
  case True
  then show ?thesis by (simp add: nancorr_def pearson_def welford_init_def)
next
  case False
  let ?st = "fold (\<lambda>p st. welford_step st p) ps welford_init"
  have inv: "welford_inv ps ?st" by (rule welford_inv_fold)
  have sx: "(\<Sum>p\<leftarrow>ps. (fst p - (\<Sum>p\<leftarrow>ps. fst p) / real (length ps))\<^sup>2) = ssqdmx ?st"
    using inv sum_sq_dev_raw [OF False, of fst] by (simp add: welford_inv_def Let_def)
  have sy: "(\<Sum>p\<leftarrow>ps. (snd p - (\<Sum>p\<leftarrow>ps. snd p) / real (length ps))\<^sup>2) = ssqdmy ?st"
    using inv sum_sq_dev_raw [OF False, of snd] by (simp add: welford_inv_def Let_def)
  have cv: "(\<Sum>p\<leftarrow>ps. (fst p - (\<Sum>p\<leftarrow>ps. fst p) / real (length ps)) *
                       (snd p - (\<Sum>p\<leftarrow>ps. snd p) / real (length ps))) = covxy ?st"
    using inv sum_co_dev_raw [OF False, of fst snd] by (simp add: welford_inv_def Let_def)
  have n: "nobs ?st = length ps" using inv by (simp add: welford_inv_def Let_def)
  show ?thesis
    using False unfolding nancorr_def pearson_def Let_def sx sy cv n by simp
qed

lemma corr_cells_nth:
  assumes "i < length (columns g)" and "j < length (columns g)"
  shows "cells (corr g) ! i ! j = (if j \<le> i then nancorr_cell g i j else nancorr_cell g j i)"
  using assms by (simp add: corr_def Let_def)

lemma pearson_swap_obs: "pearson (pair_obs ys xs) = pearson (pair_obs xs ys)"
  by (subst pair_obs_swap) (rule pearson_swap)

text \<open>Every cell of the matrix is the Pearson coefficient of its pair of columns.\<close>

lemma corr_cells_eq:
  assumes "i < length (columns g)" and "j < length (columns g)"
  shows "cells (corr g) ! i ! j = pearson (pair_obs (column_values g i) (column_values g j))"
proof (cases "j \<le> i")
  case True
  with assms show ?thesis by (simp add: corr_cells_nth nancorr_cell_def nancorr_pearson)
next
  case False
  have "pearson (pair_obs (column_values g j) (column_values g i)) =
        pearson (pair_obs (column_values g i) (column_values g j))"
    by (rule pearson_swap_obs)
  with False assms show ?thesis by (simp add: corr_cells_nth nancorr_cell_def nancorr_pearson)
qed

lemma pearson_diag:
  "pearson (map (\<lambda>v. (v, v)) vs) = (if \<exists>a\<in>set vs. \<exists>b\<in>set vs. a \<noteq> b then Some 1 else None)"
proof (cases "vs = []")
  case True
  then show ?thesis by (simp add: pearson_def)
next
  case False
  let ?S = "\<Sum>v\<leftarrow>vs. (v - sum_list vs / real (length vs))\<^sup>2"
  have p: "pearson (map (\<lambda>v. (v, v)) vs) = (if sqrt (?S * ?S) \<noteq> 0 then Some (?S / sqrt (?S * ?S)) else None)"
    using False by (simp add: pearson_def Let_def comp_def power2_eq_square)
  have "0 \<le> ?S" by simp
  then have r: "sqrt (?S * ?S) = ?S" by (simp add: real_sqrt_mult_self)
  have "?S = 0 \<longleftrightarrow> (\<forall>u\<in>set vs. \<forall>w\<in>set vs. u = w)" using False by (rule sum_sq_dev_eq_0)
  with p r show ?thesis by auto
qed

lemma corr_ratio_bounded:
  fixes c d :: real
  assumes "\<bar>c\<bar> \<le> d" and "0 < d"
  shows "-1 \<le> c / d \<and> c / d \<le> 1"
proof -
  from assms(1) have "-d \<le> c" and "c \<le> d" by (simp_all add: abs_le_iff)
  with assms(2) show ?thesis by (simp add: le_divide_eq divide_le_eq)
qed

lemma pearson_bounded:
  assumes "pearson ps = Some r"
  shows "-1 \<le> r \<and> r \<le> 1"
proof -
  define mx where "mx = (\<Sum>p\<leftarrow>ps. fst p) / real (length ps)"
  define my where "my = (\<Sum>p\<leftarrow>ps. snd p) / real (length ps)"
  define a where "a = (\<Sum>p\<leftarrow>ps. (fst p - mx)\<^sup>2)"
  define b where "b = (\<Sum>p\<leftarrow>ps. (snd p - my)\<^sup>2)"
  define c where "c = (\<Sum>p\<leftarrow>ps. (fst p - mx) * (snd p - my))"
  define dv where "dv = sqrt (a * b)"
  have p: "pearson ps = (if length ps < 1 then None else if dv \<noteq> 0 then Some (c / dv) else None)"
    unfolding pearson_def Let_def mx_def my_def a_def b_def c_def dv_def ..
  from assms p have nz: "dv \<noteq> 0" and r: "r = c / dv"
    by (auto split: if_splits)
  have "c\<^sup>2 \<le> a * b" unfolding a_def b_def c_def by (rule sum_list_cauchy_schwarz)
  then have "sqrt (c\<^sup>2) \<le> dv" unfolding dv_def by (rule real_sqrt_le_mono)
  then have le: "\<bar>c\<bar> \<le> dv" by (simp only: real_sqrt_abs)
  have "0 \<le> a" "0 \<le> b" unfolding a_def b_def by simp_all
  then have "0 \<le> dv" unfolding dv_def by simp
  with nz have "0 < dv" by linarith
  with le r show ?thesis using corr_ratio_bounded by blast
qed

declare corr_def [frame_simps] nancorr_cell_def [frame_simps] corr_columns_def [frame_simps]
  xy_frame_def [frame_simps]

section \<open>Properties of the correlation matrix\<close>

text \<open>
  C27: the matrix pandas computes (Welford's update over the lower triangle,
  mirrored) is, cell by cell, the Pearson correlation of the two columns over
  the rows where both are present, NaN when there is no such row or either
  column is constant on them.
\<close>

theorem corr_refines_pearson:
  assumes "i < length (columns g)" and "j < length (columns g)"
  shows "cells (corr g) ! i ! j = pearson (pair_obs (column_values g i) (column_values g j))"
  using assms by (rule corr_cells_eq)

theorem corr_refines_pearson_witness:
  "cells (corr xy_frame) ! 0 ! 1 = Some 1"
proof -
  have "cells (corr xy_frame) ! 0 ! 1 = pearson (pair_obs (column_values xy_frame 0) (column_values xy_frame 1))"
    by (rule corr_refines_pearson) (simp_all add: xy_frame_def)
  also have "\<dots> = Some 1"
    by (simp add: xy_frame_def column_values_def pearson_def power2_eq_square)
  finally show ?thesis .
qed



text \<open>
  C29: a diagonal entry is 1 when the column has two different values and
  NaN otherwise (no value, or a constant column: zero variance).
\<close>

theorem corr_diagonal:
  assumes "i < length (columns g)"
  shows "cells (corr g) ! i ! i =
    (if \<exists>a b. CNum a \<in> set (column_values g i) \<and> CNum b \<in> set (column_values g i) \<and> a \<noteq> b
     then Some 1 else None)"
  using assms by (simp add: corr_cells_eq pair_obs_diag pearson_diag set_nums_of)

theorem corr_diagonal_witness:
  "cells (corr xy_frame) ! 0 ! 0 = Some 1"
proof -
  have "cells (corr xy_frame) ! 0 ! 0 =
    (if \<exists>a b. CNum a \<in> set (column_values xy_frame 0) \<and> CNum b \<in> set (column_values xy_frame 0) \<and> a \<noteq> b
     then Some 1 else None)"
    by (rule corr_diagonal) (simp add: xy_frame_def)
  moreover have "\<exists>a b. CNum a \<in> set (column_values xy_frame 0) \<and> CNum b \<in> set (column_values xy_frame 0) \<and> a \<noteq> b"
    by (rule exI [of _ 1], rule exI [of _ 2]) (simp add: xy_frame_def column_values_def)
  ultimately show ?thesis by simp
qed

text \<open>C30: every coefficient the matrix reports lies in \<open>[-1, 1]\<close>.\<close>

theorem corr_bounded:
  assumes "i < length (columns g)" and "j < length (columns g)" and "cells (corr g) ! i ! j = Some r"
  shows "-1 \<le> r \<and> r \<le> 1"
proof -
  from assms(3) have "pearson (pair_obs (column_values g i) (column_values g j)) = Some r"
    using corr_cells_eq [OF assms(1,2)] by simp
  then show ?thesis by (rule pearson_bounded)
qed

theorem corr_bounded_witness:
  "-1 \<le> (1::real) \<and> (1::real) \<le> 1 \<and> cells (corr xy_frame) ! 1 ! 0 = Some 1"
proof -
  have e: "cells (corr xy_frame) ! 1 ! 0 = Some 1"
    by (simp add: xy_frame_def corr_def nancorr_cell_def nancorr_pearson column_values_def
                  pearson_def power2_eq_square)
  have "-1 \<le> (1::real) \<and> (1::real) \<le> 1"
    by (rule corr_bounded [OF _ _ e]) (simp_all add: xy_frame_def)
  with e show ?thesis by blast
qed

end
