(* ===== verification/CsvTokenizer.thy ===== *)
theory CsvTokenizer
  imports Prelude
begin

text \<open>
  The tokenizer behind \<open>pd.read_csv(uploaded_file)\<close> (\<open>src/app.py\<close>, line 15):
  the state machine of pandas' C parser (\<open>tokenize_bytes\<close> in
  \<open>tokenizer.c\<close>) with the options the script leaves at their defaults:
  delimiter \<open>,\<close>, quote character \<open>"\<close> with doubled quotes inside a quoted
  field, no escape or comment character, line ends \<open>\n\<close>, \<open>\r\n\<close> or \<open>\r\<close>,
  blank and whitespace-only lines skipped. The input is the decoded text; a
  record is the list of its fields. End of input inside a quoted field is
  the parser's error ("EOF inside string"), here \<open>None\<close>.
\<close>

section \<open>Characters\<close>

abbreviation LF :: char where "LF \<equiv> CHR 0x0A"
abbreviation CR :: char where "CR \<equiv> CHR 0x0D"
abbreviation TAB :: char where "TAB \<equiv> CHR 0x09"
abbreviation DQ :: char where "DQ \<equiv> CHR 0x22"
abbreviation COMMA :: char where "COMMA \<equiv> CHR 0x2C"

text \<open>\<open>IS_WHITESPACE\<close>: blank and tab.\<close>

definition is_ws :: "char \<Rightarrow> bool" where
  "is_ws c \<longleftrightarrow> c = CHR 0x20 \<or> c = TAB"

section \<open>Tokenizer state\<close>

text \<open>
  The parser states the default options reach. \<open>WhitespaceLine ws\<close> holds
  the blanks read since the start of the record: the C code backtracks over
  them when the line turns out not to be blank.
\<close>

datatype tstate =
  StartRecord | StartField | InField | InQuoted | QuoteInQuoted
| EatCrnl | EatCrnlNop | WhitespaceLine string

record tok =
  tstate :: tstate
  fld :: string
  cur_fields :: "string list"
  recs :: "string list list"

definition tok_init :: tok where
  "tok_init = \<lparr>tstate = StartRecord, fld = [], cur_fields = [], recs = []\<rparr>"

text \<open>\<open>PUSH_CHAR\<close>, \<open>END_FIELD\<close>, \<open>END_LINE\<close>.\<close>

definition push_char :: "char \<Rightarrow> tok \<Rightarrow> tok" where
  "push_char c st = st\<lparr>fld := fld st @ [c]\<rparr>"

definition end_field :: "tok \<Rightarrow> tok" where
  "end_field st = st\<lparr>cur_fields := cur_fields st @ [fld st], fld := []\<rparr>"

definition end_line :: "tok \<Rightarrow> tok" where
  "end_line st = st\<lparr>recs := recs st @ [cur_fields st], cur_fields := [], tstate := StartRecord\<rparr>"

section \<open>Transitions\<close>

text \<open>\<open>START_FIELD\<close>: a delimiter saves an empty field.\<close>

definition start_field :: "tok \<Rightarrow> char \<Rightarrow> tok" where
  "start_field st c =
     (if c = LF then end_line (end_field st)
      else if c = CR then (end_field st)\<lparr>tstate := EatCrnl\<rparr>
      else if c = DQ then st\<lparr>tstate := InQuoted\<rparr>
      else if c = COMMA then (end_field st)\<lparr>tstate := StartField\<rparr>
      else (push_char c st)\<lparr>tstate := InField\<rparr>)"

text \<open>\<open>IN_FIELD\<close>: a quote inside an unquoted field is an ordinary character.\<close>

definition in_field :: "tok \<Rightarrow> char \<Rightarrow> tok" where
  "in_field st c =
     (if c = LF then end_line (end_field st)
      else if c = CR then (end_field st)\<lparr>tstate := EatCrnl\<rparr>
      else if c = COMMA then (end_field st)\<lparr>tstate := StartField\<rparr>
      else push_char c st)"

definition in_quoted :: "tok \<Rightarrow> char \<Rightarrow> tok" where
  "in_quoted st c = (if c = DQ then st\<lparr>tstate := QuoteInQuoted\<rparr> else push_char c st)"

text \<open>\<open>QUOTE_IN_QUOTED_FIELD\<close>: \<open>""\<close> is one quote; text after the closing quote joins the field.\<close>

definition quote_in_quoted :: "tok \<Rightarrow> char \<Rightarrow> tok" where
  "quote_in_quoted st c =
     (if c = DQ then (push_char c st)\<lparr>tstate := InQuoted\<rparr>
      else if c = COMMA then (end_field st)\<lparr>tstate := StartField\<rparr>
      else if c = LF then end_line (end_field st)
      else if c = CR then (end_field st)\<lparr>tstate := EatCrnl\<rparr>
      else (push_char c st)\<lparr>tstate := InField\<rparr>)"

text \<open>\<open>START_RECORD\<close>: blank lines are skipped; any other character falls through to \<open>START_FIELD\<close>.\<close>

definition start_record :: "tok \<Rightarrow> char \<Rightarrow> tok" where
  "start_record st c =
     (if c = LF then st
      else if c = CR then st\<lparr>tstate := EatCrnlNop\<rparr>
      else if is_ws c then st\<lparr>tstate := WhitespaceLine [c]\<rparr>
      else start_field (st\<lparr>tstate := StartField\<rparr>) c)"

text \<open>
  One character in any state. \<open>EAT_CRNL\<close> follows a \<open>\r\<close> that ended a line
  and parses any character but \<open>\n\<close> again at the start of a record (a
  delimiter there ends the line and an empty field). \<open>EAT_CRNL_NOP\<close> follows a
  skipped \<open>\r\<close> line. In \<open>WHITESPACE_LINE\<close> a character that is neither blank
  nor a line end makes the C code back up to the start of the line and parse
  it from \<open>START_FIELD\<close>: the blanks become the first characters of the first
  field and the character is read in \<open>IN_FIELD\<close>.
\<close>

definition tok_step :: "tok \<Rightarrow> char \<Rightarrow> tok" where
  "tok_step st c =
     (case tstate st of
        StartRecord \<Rightarrow> start_record st c
      | StartField \<Rightarrow> start_field st c
      | InField \<Rightarrow> in_field st c
      | InQuoted \<Rightarrow> in_quoted st c
      | QuoteInQuoted \<Rightarrow> quote_in_quoted st c
      | EatCrnl \<Rightarrow>
          (if c = LF then end_line st
           else if c = COMMA then (end_field (end_line st))\<lparr>tstate := StartField\<rparr>
           else start_record (end_line st) c)
      | EatCrnlNop \<Rightarrow>
          (if c = LF \<or> c = COMMA then st\<lparr>tstate := StartRecord\<rparr>
           else start_record (st\<lparr>tstate := StartRecord\<rparr>) c)
      | WhitespaceLine ws \<Rightarrow>
          (if c = LF then st\<lparr>tstate := StartRecord\<rparr>
           else if c = CR then st\<lparr>tstate := EatCrnlNop\<rparr>
           else if is_ws c then st\<lparr>tstate := WhitespaceLine (ws @ [c])\<rparr>
           else in_field (st\<lparr>fld := fld st @ ws, tstate := InField\<rparr>) c))"

text \<open>\<open>parser_handle_eof\<close>: the last record needs no line end.\<close>

definition tok_eof :: "tok \<Rightarrow> string list list option" where
  "tok_eof st =
     (case tstate st of
        StartRecord \<Rightarrow> Some (recs st)
      | WhitespaceLine ws \<Rightarrow> Some (recs st)
      | EatCrnlNop \<Rightarrow> Some (recs st)
      | InQuoted \<Rightarrow> None
      | EatCrnl \<Rightarrow> Some (recs (end_line st))
      | StartField \<Rightarrow> Some (recs (end_line (end_field st)))
      | InField \<Rightarrow> Some (recs (end_line (end_field st)))
      | QuoteInQuoted \<Rightarrow> Some (recs (end_line (end_field st))))"

definition tokenize :: "string \<Rightarrow> string list list option" where
  "tokenize t = tok_eof (foldl tok_step tok_init t)"

section \<open>A CSV writer\<close>

text \<open>
  Minimal quoting, as Python's \<open>csv\<close> writer does with \<open>\n\<close> line ends: a
  field is quoted when it holds a delimiter, a quote or a line end, quotes
  doubled; a record of one empty field is written \<open>""\<close>. Used to state what
  the tokenizer reads back.
\<close>

definition special :: "char \<Rightarrow> bool" where
  "special c \<longleftrightarrow> c = COMMA \<or> c = DQ \<or> c = LF \<or> c = CR"

definition quote_field :: "string \<Rightarrow> string" where
  "quote_field f = DQ # concat (map (\<lambda>c. if c = DQ then [DQ, DQ] else [c]) f) @ [DQ]"

definition render_field :: "string \<Rightarrow> string" where
  "render_field f = (if list_ex special f then quote_field f else f)"

fun join_fields :: "string list \<Rightarrow> string" where
  "join_fields [] = []"
| "join_fields [f] = f"
| "join_fields (f # fs) = f @ COMMA # join_fields fs"

definition render_record :: "string list \<Rightarrow> string" where
  "render_record r = (if r = [[]] then [DQ, DQ] else join_fields (map render_field r)) @ [LF]"

definition render_csv :: "string list list \<Rightarrow> string" where
  "render_csv rs = concat (map render_record rs)"

text \<open>A record the tokenizer skips when written: one field of blanks only.\<close>

definition blank_record :: "string list \<Rightarrow> bool" where
  "blank_record r \<longleftrightarrow> (\<exists>f. r = [f] \<and> f \<noteq> [] \<and> list_all is_ws f)"

section \<open>Lemmas\<close>

text \<open>
  Reading one written field, one record and a sequence of records: each step
  is the state the C parser is in after the characters the writer emits.
\<close>

lemma special_chars [simp]:
  "special COMMA" "special DQ" "special LF" "special CR"
  by (simp_all add: special_def)

lemma not_special_neq:
  "\<not> special c \<Longrightarrow> c \<noteq> COMMA \<and> c \<noteq> DQ \<and> c \<noteq> LF \<and> c \<noteq> CR"
  by (auto simp: special_def)

lemma ws_not_special: "is_ws c \<Longrightarrow> \<not> special c"
  by (auto simp: is_ws_def special_def)

lemma ws_neq: "is_ws c \<Longrightarrow> c \<noteq> COMMA \<and> c \<noteq> DQ \<and> c \<noteq> LF \<and> c \<noteq> CR"
  by (auto simp: is_ws_def)

lemmas tok_defs = tok_step_def start_record_def start_field_def in_field_def in_quoted_def
  quote_in_quoted_def push_char_def end_field_def end_line_def

lemma tok_plain:
  "tstate st = InField \<Longrightarrow> \<not> list_ex special f \<Longrightarrow>
     foldl tok_step st f = st\<lparr>fld := fld st @ f\<rparr>"
proof (induction f arbitrary: st)
  case Nil
  then show ?case by simp
next
  case (Cons c f)
  then have c: "\<not> special c" and f: "\<not> list_ex special f" by auto
  have "tok_step st c = st\<lparr>fld := fld st @ [c]\<rparr>"
    using Cons.prems(1) not_special_neq [OF c] by (simp add: tok_defs)
  moreover have "foldl tok_step (st\<lparr>fld := fld st @ [c]\<rparr>) f = st\<lparr>fld := fld st @ c # f\<rparr>"
    using Cons.IH [of "st\<lparr>fld := fld st @ [c]\<rparr>"] Cons.prems(1) f by simp
  ultimately show ?case by simp
qed

lemma tok_quoted_body:
  "tstate st = InQuoted \<Longrightarrow>
     foldl tok_step st (concat (map (\<lambda>c. if c = DQ then [DQ, DQ] else [c]) f) @ [DQ]) =
       st\<lparr>fld := fld st @ f, tstate := QuoteInQuoted\<rparr>"
proof (induction f arbitrary: st)
  case Nil
  then show ?case by (simp add: tok_defs)
next
  case (Cons c f)
  have step: "foldl tok_step st (if c = DQ then [DQ, DQ] else [c]) = st\<lparr>fld := fld st @ [c]\<rparr>"
    using Cons.prems by (simp add: tok_defs)
  have "tstate (st\<lparr>fld := fld st @ [c]\<rparr>) = InQuoted" using Cons.prems by simp
  from Cons.IH [OF this] step show ?case by simp
qed

lemma tok_field:
  assumes st: "tstate st = StartField" "fld st = []" and c: "c = COMMA \<or> c = LF"
  shows "foldl tok_step st (render_field f @ [c]) =
           (if c = COMMA then (end_field (st\<lparr>fld := f\<rparr>))\<lparr>tstate := StartField\<rparr>
            else end_line (end_field (st\<lparr>fld := f\<rparr>)))"
proof (cases "list_ex special f")
  case True
  define B where "B = concat (map (\<lambda>c. if c = DQ then [DQ, DQ] else [c]) f) @ [DQ]"
  have r: "render_field f @ [c] = DQ # B @ [c]"
    by (simp add: B_def render_field_def quote_field_def True)
  have s0: "tok_step st DQ = st\<lparr>tstate := InQuoted\<rparr>" using st by (simp add: tok_defs)
  have q: "tstate (st\<lparr>tstate := InQuoted\<rparr>) = InQuoted" by simp
  have s1: "foldl tok_step (st\<lparr>tstate := InQuoted\<rparr>) B = st\<lparr>fld := f, tstate := QuoteInQuoted\<rparr>"
    unfolding B_def using tok_quoted_body [OF q] st by simp
  have "foldl tok_step st (render_field f @ [c]) = tok_step (st\<lparr>fld := f, tstate := QuoteInQuoted\<rparr>) c"
    by (simp only: r foldl_Cons foldl_append s0 s1) simp
  with c show ?thesis by (auto simp: tok_defs)
next
  case False
  show ?thesis
  proof (cases f)
    case Nil
    with st c show ?thesis by (auto simp: render_field_def tok_defs)
  next
    case (Cons x xs)
    with False have x: "\<not> special x" and xs: "\<not> list_ex special xs" by auto
    let ?s1 = "st\<lparr>fld := [x], tstate := InField\<rparr>"
    have s1: "tok_step st x = ?s1" using st not_special_neq [OF x] by (simp add: tok_defs)
    have "foldl tok_step ?s1 xs = ?s1\<lparr>fld := x # xs\<rparr>" using tok_plain [of ?s1 xs] xs by simp
    with s1 Cons False st c show ?thesis
      by (auto simp: render_field_def tok_defs)
  qed
qed


lemma tok_fields:
  assumes "tstate st = StartField" "fld st = []" "fs \<noteq> []"
  shows "foldl tok_step st (join_fields (map render_field fs) @ [LF]) =
           end_line (st\<lparr>cur_fields := cur_fields st @ fs\<rparr>)"
  using assms
proof (induction fs arbitrary: st rule: join_fields.induct)
  case 1
  then show ?case by simp
next
  case (2 f)
  have "foldl tok_step st (render_field f @ [LF]) = end_line (end_field (st\<lparr>fld := f\<rparr>))"
    using tok_field [OF 2(1,2), of LF f] by simp
  then show ?case using 2(2) by (cases st) (simp add: end_field_def end_line_def)
next
  case (3 f g gs)
  let ?st' = "(end_field (st\<lparr>fld := f\<rparr>))\<lparr>tstate := StartField\<rparr>"
  have "foldl tok_step st (render_field f @ [COMMA]) = ?st'"
    using tok_field [OF 3(2,3), of COMMA f] by simp
  moreover have "foldl tok_step ?st' (join_fields (map render_field (g # gs)) @ [LF]) =
                   end_line (?st'\<lparr>cur_fields := cur_fields ?st' @ g # gs\<rparr>)"
    by (rule 3(1)) (simp_all add: end_field_def)
  ultimately show ?case
    using 3(3) by (cases st) (simp add: end_field_def end_line_def)
qed

lemma tok_ws_run:
  assumes "tstate st = StartRecord" "w \<noteq> []" "list_all is_ws w"
  shows "foldl tok_step st w = st\<lparr>tstate := WhitespaceLine w\<rparr>"
  using assms
proof (induction w rule: rev_induct)
  case Nil
  then show ?case by simp
next
  case (snoc x w)
  from snoc.prems have x: "is_ws x" by simp
  show ?case
  proof (cases "w = []")
    case True
    with snoc.prems x ws_neq [OF x] show ?thesis by (simp add: tok_step_def start_record_def)
  next
    case False
    with snoc.IH snoc.prems have ih: "foldl tok_step st w = st\<lparr>tstate := WhitespaceLine w\<rparr>" by simp
    have "foldl tok_step st (w @ [x]) = tok_step (st\<lparr>tstate := WhitespaceLine w\<rparr>) x"
      by (simp only: foldl_append foldl_Cons foldl_Nil ih)
    also have "\<dots> = st\<lparr>tstate := WhitespaceLine (w @ [x])\<rparr>"
      using x ws_neq [OF x] by (simp add: tok_step_def)
    finally show ?thesis .
  qed
qed

lemma tok_line_start:
  assumes st: "tstate st = StartRecord" "fld st = []"
    and w: "list_all is_ws w" and c: "\<not> is_ws c" "c \<noteq> LF" "c \<noteq> CR"
  shows "foldl tok_step st (w @ c # rest) = foldl tok_step (st\<lparr>tstate := StartField\<rparr>) (w @ c # rest)"
proof (cases "w = []")
  case True
  with st c show ?thesis by (simp add: tok_step_def start_record_def)
next
  case False
  then obtain x w' where xw: "w = x # w'" by (cases w) auto
  with w have x: "is_ws x" and w': "\<not> list_ex special w'"
    by (auto simp: list_all_iff list_ex_iff dest: ws_not_special)
  have lhs: "foldl tok_step st (w @ [c]) = in_field (st\<lparr>fld := w, tstate := InField\<rparr>) c"
    using tok_ws_run [OF st(1) False w] st c by (simp add: tok_step_def)
  let ?s1 = "st\<lparr>tstate := InField, fld := [x]\<rparr>"
  have "tok_step (st\<lparr>tstate := StartField\<rparr>) x = ?s1"
    using st ws_neq [OF x] by (simp add: tok_defs)
  moreover have "foldl tok_step ?s1 w' = ?s1\<lparr>fld := x # w'\<rparr>"
    using tok_plain [of ?s1 w'] w' by simp
  ultimately have "foldl tok_step (st\<lparr>tstate := StartField\<rparr>) (w @ [c]) =
                          in_field (st\<lparr>tstate := InField, fld := x # w'\<rparr>) c"
    using xw by (simp add: tok_step_def)
  moreover have "st\<lparr>tstate := InField, fld := x # w'\<rparr> = st\<lparr>fld := w, tstate := InField\<rparr>"
    using xw by (cases st) simp
  ultimately have rhs: "foldl tok_step (st\<lparr>tstate := StartField\<rparr>) (w @ [c]) =
                          in_field (st\<lparr>fld := w, tstate := InField\<rparr>) c"
    by simp
  from lhs rhs show ?thesis
    by (metis append.assoc append_Cons append_Nil foldl_append)
qed


lemma join_fields_Cons:
  "join_fields (f # fs) = f @ (if fs = [] then [] else COMMA # join_fields fs)"
  by (cases fs) simp_all

lemma render_line_start:
  assumes "r \<noteq> []" and "r \<noteq> [[]]" and "\<not> blank_record r"
  shows "\<exists>w c rest. join_fields (map render_field r) @ [LF] = w @ c # rest \<and>
           list_all is_ws w \<and> \<not> is_ws c \<and> c \<noteq> LF \<and> c \<noteq> CR"
proof -
  obtain f fs where r: "r = f # fs" using assms(1) by (cases r) auto
  define t where "t = (if fs = [] then [] else COMMA # join_fields (map render_field fs)) @ [LF]"
  have line: "join_fields (map render_field r) @ [LF] = render_field f @ t"
    by (simp add: r t_def join_fields_Cons)
  show ?thesis
  proof (cases "list_ex special f")
    case True
    then have "render_field f @ t = [] @ DQ # (tl (quote_field f) @ t)"
      by (simp add: render_field_def quote_field_def)
    with line have "join_fields (map render_field r) @ [LF] = [] @ DQ # (tl (quote_field f) @ t)"
      by simp
    then show ?thesis
      by (intro exI [of _ "[]"] exI [of _ DQ] exI [of _ "tl (quote_field f) @ t"]) (simp add: is_ws_def)
  next
    case False
    then have rf: "render_field f = f" by (simp add: render_field_def)
    show ?thesis
    proof (cases "dropWhile is_ws f")
      case (Cons x v)
      then have x: "\<not> is_ws x" and "x \<in> set f"
        using hd_dropWhile [of is_ws f] set_dropWhileD [of x is_ws f] by auto
      with False have "\<not> special x" by (auto simp: list_ex_iff)
      then have "x \<noteq> LF \<and> x \<noteq> CR" by (simp add: special_def)
      moreover obtain w where w: "w = takeWhile is_ws f" by blast
      then have "f = w @ x # v" using Cons takeWhile_dropWhile_id [of is_ws f] by simp
      then have "render_field f @ t = w @ x # (v @ t)" using rf by simp
      moreover have "list_all is_ws w"
        unfolding w by (induction f) simp_all
      ultimately show ?thesis using line x
        by (intro exI [of _ w] exI [of _ x] exI [of _ "v @ t"]) simp
    next
      case Nil
      then have allws: "list_all is_ws f" by (simp add: list_all_iff)
      have "fs \<noteq> []"
      proof
        assume "fs = []"
        with assms(2) r have "f \<noteq> []" by simp
        with \<open>fs = []\<close> allws r have "blank_record r" by (simp add: blank_record_def)
        with assms(3) show False by simp
      qed
      then have "render_field f @ t = f @ COMMA # (join_fields (map render_field fs) @ [LF])"
        by (simp add: rf t_def)
      with line allws show ?thesis by (auto simp: is_ws_def)
    qed
  qed
qed

lemma tok_record:
  assumes st: "tstate st = StartRecord" "fld st = []" "cur_fields st = []"
    and r: "r \<noteq> []" "\<not> blank_record r"
  shows "foldl tok_step st (render_record r) = st\<lparr>recs := recs st @ [r]\<rparr>"
proof (cases "r = [[]]")
  case True
  with st show ?thesis by (cases st) (simp add: render_record_def tok_defs is_ws_def)
next
  case False
  define line where "line = join_fields (map render_field r) @ [LF]"
  have rr: "render_record r = line" using False by (simp add: render_record_def line_def)
  obtain w c rest where ln: "line = w @ c # rest" and w: "list_all is_ws w"
    and c: "\<not> is_ws c" "c \<noteq> LF" "c \<noteq> CR"
    using render_line_start [OF r(1) False r(2)] unfolding line_def by blast
  have "foldl tok_step st line = foldl tok_step (st\<lparr>tstate := StartField\<rparr>) line"
    unfolding ln by (rule tok_line_start [OF st(1,2) w c])
  also have "\<dots> = end_line (st\<lparr>tstate := StartField, cur_fields := cur_fields st @ r\<rparr>)"
    unfolding line_def using tok_fields [of "st\<lparr>tstate := StartField\<rparr>" r] st r(1) by simp
  also have "\<dots> = st\<lparr>recs := recs st @ [r]\<rparr>"
    using st by (cases st) (simp add: end_line_def)
  finally show ?thesis by (simp add: rr)
qed

lemma tok_records:
  assumes "tstate st = StartRecord" "fld st = []" "cur_fields st = []"
    and "\<forall>r\<in>set rs. r \<noteq> [] \<and> \<not> blank_record r"
  shows "foldl tok_step st (render_csv rs) = st\<lparr>recs := recs st @ rs\<rparr>"
  using assms
proof (induction rs arbitrary: st)
  case Nil
  then show ?case by (simp add: render_csv_def)
next
  case (Cons r rs)
  let ?st' = "st\<lparr>recs := recs st @ [r]\<rparr>"
  have "foldl tok_step st (render_record r) = ?st'"
    using Cons.prems by (simp add: tok_record)
  moreover have "foldl tok_step ?st' (render_csv rs) = ?st'\<lparr>recs := recs ?st' @ rs\<rparr>"
    using Cons.prems by (intro Cons.IH) simp_all
  ultimately show ?case by (simp add: render_csv_def)
qed

lemma tok_in_quoted_run:
  "tstate st = InQuoted \<Longrightarrow> DQ \<notin> set s \<Longrightarrow> tstate (foldl tok_step st s) = InQuoted"
proof (induction s arbitrary: st)
  case Nil
  then show ?case by simp
next
  case (Cons c s)
  have "tstate (tok_step st c) = InQuoted"
    using Cons.prems by (auto simp: tok_step_def in_quoted_def push_char_def)
  with Cons.IH Cons.prems(2) have "tstate (foldl tok_step (tok_step st c) s) = InQuoted" by simp
  then show ?case by simp
qed

section \<open>Properties of the tokenizer\<close>

text \<open>
  C13: reading back what the CSV writer wrote gives the records written, for
  every list of records with at least one field each, except a record of one
  field of blanks only (the parser skips such a line as blank).
\<close>

theorem tokenize_render_csv:
  assumes "\<forall>r\<in>set rs. r \<noteq> [] \<and> \<not> blank_record r"
  shows "tokenize (render_csv rs) = Some rs"
  using tok_records [of tok_init rs] assms by (simp add: tokenize_def tok_init_def tok_eof_def)

theorem tokenize_render_csv_witness:
  "[''a'', ''b''] \<noteq> [] \<and> \<not> blank_record [''a'', ''b''] \<and> [''''] \<noteq> [] \<and> \<not> blank_record [''''] \<and>
   [''x,y'', '' '', ''q'' @ [DQ]] \<noteq> [] \<and> \<not> blank_record [''x,y'', '' '', ''q'' @ [DQ]] \<and>
   tokenize (render_csv [[''a'', ''b''], [''''], [''x,y'', '' '', ''q'' @ [DQ]]]) =
     Some [[''a'', ''b''], [''''], [''x,y'', '' '', ''q'' @ [DQ]]]"
proof -
  have h: "\<forall>r\<in>set [[''a'', ''b''], [''''], [''x,y'', '' '', ''q'' @ [DQ]]]. r \<noteq> [] \<and> \<not> blank_record r"
    by (simp add: blank_record_def)
  from h tokenize_render_csv [OF h] show ?thesis by simp
qed

text \<open>
  C14: a quote opened and never closed is the parser's error "EOF inside
  string": whatever well-formed records come before it, the text after an
  opening quote with no closing quote is not read as a table.
\<close>

theorem tokenize_unterminated_quote:
  assumes "\<forall>r\<in>set rs. r \<noteq> [] \<and> \<not> blank_record r" and "DQ \<notin> set s"
  shows "tokenize (render_csv rs @ DQ # s) = None"
proof -
  let ?st = "tok_init\<lparr>recs := rs\<rparr>"
  have "foldl tok_step tok_init (render_csv rs) = ?st"
    using tok_records [of tok_init rs] assms(1) by (simp add: tok_init_def)
  moreover have "tok_step ?st DQ = ?st\<lparr>tstate := InQuoted\<rparr>"
    by (simp add: tok_defs tok_init_def is_ws_def)
  moreover have "tstate (foldl tok_step (?st\<lparr>tstate := InQuoted\<rparr>) s) = InQuoted"
    using assms(2) by (intro tok_in_quoted_run) simp_all
  ultimately show ?thesis by (simp add: tokenize_def tok_eof_def)
qed

theorem tokenize_unterminated_quote_witness:
  "[''a'', ''b''] \<noteq> [] \<and> \<not> blank_record [''a'', ''b''] \<and> DQ \<notin> set ''1,x'' \<and>
   tokenize (render_csv [[''a'', ''b'']] @ DQ # ''1,x'') = None"
proof -
  have h: "\<forall>r\<in>set [[''a'', ''b'']]. r \<noteq> [] \<and> \<not> blank_record r" by (simp add: blank_record_def)
  have d: "DQ \<notin> set ''1,x''" by simp
  from h d tokenize_unterminated_quote [OF h d] show ?thesis by simp
qed

text \<open>
  C18: the model reads a line that starts with blanks in one step where the
  C parser backs up: it pushes the blanks and reads the next character in
  \<open>IN_FIELD\<close>. This is equivalent to the parser's behaviour: after the
  blanks and the first other character, the state is the one reached by
  reading the same characters from \<open>START_FIELD\<close>, as the C code does
  after backing up.
\<close>

theorem blank_led_line_equiv:
  assumes "tstate st = StartRecord" and "fld st = []" and "list_all is_ws w"
    and "\<not> is_ws c" and "c \<noteq> LF" and "c \<noteq> CR"
  shows "foldl tok_step st (w @ c # rest) = foldl tok_step (st\<lparr>tstate := StartField\<rparr>) (w @ c # rest)"
  using assms by (rule tok_line_start)

theorem blank_led_line_equiv_witness:
  "tstate tok_init = StartRecord \<and> fld tok_init = [] \<and> list_all is_ws '' '' \<and>
   \<not> is_ws (CHR ''a'') \<and> CHR ''a'' \<noteq> LF \<and> CHR ''a'' \<noteq> CR \<and>
   foldl tok_step tok_init ('' '' @ CHR ''a'' # '',b'') =
     foldl tok_step (tok_init\<lparr>tstate := StartField\<rparr>) ('' '' @ CHR ''a'' # '',b'')"
proof -
  have h: "tstate tok_init = StartRecord" "fld tok_init = []" "list_all is_ws '' ''"
    "\<not> is_ws (CHR ''a'')" "CHR ''a'' \<noteq> LF" "CHR ''a'' \<noteq> CR"
    by (simp_all add: tok_init_def is_ws_def)
  have e: "foldl tok_step tok_init ('' '' @ CHR ''a'' # '',b'') =
     foldl tok_step (tok_init\<lparr>tstate := StartField\<rparr>) ('' '' @ CHR ''a'' # '',b'')"
    by (rule blank_led_line_equiv [OF h])
  from h e show ?thesis by (intro conjI)
qed

end
