(* ===== verification/CsvRead.thy ===== *)
theory CsvRead
  imports Frame CsvTokenizer
begin

text \<open>
  \<open>df = pd.read_csv(uploaded_file)\<close> (\<open>src/app.py\<close>, line 15) after
  tokenizing (theory \<open>CsvTokenizer\<close>), with the defaults the script uses:
  the first record is the header; an empty header field is named
  \<open>Unnamed: i\<close> and a repeated name gets the first suffix \<open>.1\<close>, \<open>.2\<close>, ... that
  is not taken, by the name mangling of \<open>TextReader._get_header\<close> as pandas
  does it since version 1.3 (named columns before unnamed ones, suffixed
  names already in the header skipped; the NA strings below are those of
  pandas 2); rows get the labels
  \<open>0, 1, ...\<close>; a short row is padded with missing values and a row with
  more fields than the header is the error "Expected n fields"; each column's
  dtype is inferred as pandas' C parser does (int64, then float64, then
  bool, else object), the strings of \<open>STR_NA_VALUES\<close> read as NaN.
\<close>

section \<open>Missing values\<close>

text \<open>pandas' default \<open>na_values\<close> (\<open>STR_NA_VALUES\<close>), matched against the whole field.\<close>

definition na_values :: "string list" where
  "na_values =
     ['''', ''#N/A'', ''#N/A N/A'', ''#NA'', ''-1.#IND'', ''-1.#QNAN'', ''-NaN'', ''-nan'',
      ''1.#IND'', ''1.#QNAN'', ''<NA>'', ''N/A'', ''NA'', ''NULL'', ''NaN'', ''None'', ''n/a'',
      ''nan'', ''null'']"

definition is_na :: "string \<Rightarrow> bool" where
  "is_na v \<longleftrightarrow> v \<in> set na_values"

section \<open>Numbers and booleans\<close>

text \<open>\<open>isspace_ascii\<close>: the blanks the number parsers skip around a number.\<close>

definition is_space :: "char \<Rightarrow> bool" where
  "is_space c \<longleftrightarrow> c = CHR 0x20 \<or> c = TAB \<or> c = LF \<or> c = CHR 0x0B \<or> c = CHR 0x0C \<or> c = CR"

definition strip_spaces :: "string \<Rightarrow> string" where
  "strip_spaces s = rev (dropWhile is_space (rev (dropWhile is_space s)))"

definition is_digit :: "char \<Rightarrow> bool" where
  "is_digit c \<longleftrightarrow> 48 \<le> (of_char c :: nat) \<and> (of_char c :: nat) \<le> 57"

definition digit_val :: "char \<Rightarrow> nat" where
  "digit_val c = of_char c - 48"

definition digits_val :: "string \<Rightarrow> nat" where
  "digits_val ds = foldl (\<lambda>n d. 10 * n + digit_val d) 0 ds"

text \<open>An optional sign: \<open>True\<close> for minus.\<close>

definition split_sign :: "string \<Rightarrow> bool \<times> string" where
  "split_sign s =
     (case s of
        c # r \<Rightarrow> if c = CHR ''-'' then (True, r) else if c = CHR ''+'' then (False, r) else (False, s)
      | [] \<Rightarrow> (False, []))"

text \<open>\<open>str_to_int64\<close>: blanks, a sign, at least one digit and nothing else but blanks.\<close>

definition parse_int :: "string \<Rightarrow> int option" where
  "parse_int s =
     (let (neg, q) = split_sign (strip_spaces s)
      in if q \<noteq> [] \<and> list_all is_digit q
         then Some ((if neg then -1 else 1) * int (digits_val q)) else None)"

definition int64_field :: "string \<Rightarrow> bool" where
  "int64_field v = (case parse_int v of Some i \<Rightarrow> - (2 ^ 63) \<le> i \<and> i < 2 ^ 63 | None \<Rightarrow> False)"

text \<open>\<open>10\<close> raised to an integer exponent.\<close>

definition pow10 :: "int \<Rightarrow> real" where
  "pow10 e = (if 0 \<le> e then 10 ^ nat e else 1 / 10 ^ nat (- e))"

text \<open>
  \<open>precise_xstrtod\<close>: blanks, a sign, digits with an optional decimal point
  (at least one digit in all), an optional exponent with at least one digit,
  blanks. The value is the exact decimal (floats are reals in this model).
\<close>

definition parse_float :: "string \<Rightarrow> real option" where
  "parse_float s =
     (let (neg, q) = split_sign (strip_spaces s);
          ip = takeWhile is_digit q; r1 = dropWhile is_digit q;
          (fp, r2) = (case r1 of c # r \<Rightarrow> if c = CHR ''.'' then (takeWhile is_digit r, dropWhile is_digit r)
                                            else ([], r1)
                              | [] \<Rightarrow> ([], []));
          m = real (digits_val ip) + real (digits_val fp) / 10 ^ length fp;
          sg = (if neg then -1 else 1)
      in if ip = [] \<and> fp = [] then None
         else case r2 of
                [] \<Rightarrow> Some (sg * m)
              | e # r3 \<Rightarrow>
                  if e = CHR ''e'' \<or> e = CHR ''E'' then
                    (let (eneg, r4) = split_sign r3; ed = takeWhile is_digit r4
                     in if ed \<noteq> [] \<and> dropWhile is_digit r4 = []
                        then Some (sg * m * pow10 ((if eneg then -1 else 1) * int (digits_val ed)))
                        else None)
                  else None)"

definition lower :: "char \<Rightarrow> char" where
  "lower c = (if 65 \<le> (of_char c :: nat) \<and> (of_char c :: nat) \<le> 90 then char_of (of_char c + (32 :: nat)) else c)"

text \<open>\<open>to_boolean\<close>: \<open>true\<close> and \<open>false\<close> in any case.\<close>

definition parse_bool :: "string \<Rightarrow> bool option" where
  "parse_bool v =
     (if map lower v = ''true'' then Some True else if map lower v = ''false'' then Some False else None)"

text \<open>The spellings of infinity \<open>_try_double\<close> accepts besides numbers.\<close>

definition is_inf_word :: "string \<Rightarrow> bool" where
  "is_inf_word v \<longleftrightarrow>
     map lower v \<in> {''inf'', ''+inf'', ''-inf'', ''infinity'', ''+infinity'', ''-infinity''}"

section \<open>Column dtypes\<close>

text \<open>
  \<open>_convert_tokens\<close> tries int64 (no missing value allowed), then float64,
  then bool; a bool column with a missing value is upcast to object
  (\<open>_maybe_upcast\<close>); a column without rows is object. \<open>KInf\<close> is a float
  column holding an infinity.
\<close>

datatype col_kind = KInt | KFloat | KInf | KBool | KBoolNA | KObject

definition infer_kind :: "string list \<Rightarrow> col_kind" where
  "infer_kind vs =
     (if vs = [] then KObject
      else if list_all (\<lambda>v. \<not> is_na v \<and> int64_field v) vs then KInt
      else if list_all (\<lambda>v. is_na v \<or> parse_float v \<noteq> None) vs then KFloat
      else if list_all (\<lambda>v. is_na v \<or> parse_float v \<noteq> None \<or> is_inf_word v) vs then KInf
      else if list_all (\<lambda>v. is_na v \<or> parse_bool v \<noteq> None) vs
      then (if list_ex is_na vs then KBoolNA else KBool)
      else KObject)"

fun dtype_of_kind :: "col_kind \<Rightarrow> dtype" where
  "dtype_of_kind KInt = Int64"
| "dtype_of_kind KFloat = Float64"
| "dtype_of_kind KInf = Float64"
| "dtype_of_kind KBool = BoolD"
| "dtype_of_kind KBoolNA = ObjectD"
| "dtype_of_kind KObject = ObjectD"

text \<open>One field of a column of the given kind, as the column stores it.\<close>

definition convert_cell :: "col_kind \<Rightarrow> string \<Rightarrow> cell" where
  "convert_cell k v =
     (if is_na v then CNaN
      else case k of
        KInt \<Rightarrow> (case parse_int v of Some i \<Rightarrow> CNum (real_of_int i) | None \<Rightarrow> CStr v)
      | KFloat \<Rightarrow> (case parse_float v of Some x \<Rightarrow> CNum x | None \<Rightarrow> CStr v)
      | KInf \<Rightarrow> (case parse_float v of Some x \<Rightarrow> CNum x | None \<Rightarrow> CStr v)
      | KBool \<Rightarrow> (case parse_bool v of Some b \<Rightarrow> CBool b | None \<Rightarrow> CStr v)
      | KBoolNA \<Rightarrow> (case parse_bool v of Some b \<Rightarrow> CBool b | None \<Rightarrow> CStr v)
      | KObject \<Rightarrow> CStr v)"

section \<open>Column names\<close>

text \<open>Python's decimal formatting of a counter, as in \<open>f"{name}.{count}"\<close>.\<close>

fun string_of_nat :: "nat \<Rightarrow> string" where
  "string_of_nat n =
     (let last = [char_of (n mod 10 + 48)] in if 10 \<le> n then string_of_nat (n div 10) @ last else last)"

declare string_of_nat.simps [simp del]

text \<open>\<open>f"{old_col}.{cur_count}"\<close>.\<close>

definition suffixed :: "string \<Rightarrow> nat \<Rightarrow> string" where
  "suffixed old k = old @ CHR ''.'' # string_of_nat k"

text \<open>
  The inner loop of the column-name mangling of pandas'
  \<open>TextReader._get_header\<close> (pandas 1.3 and later):
  \<^verbatim>\<open>while cur_count > 0: counts[old_col] = cur_count + 1; col = f"{old_col}.{cur_count}"; if col in this_header: cur_count += 1 else: cur_count = counts.get(col, 0)\<close>.
  The dictionary \<open>counts\<close> is a function with default \<open>0\<close>; \<open>hdr\<close> is
  \<open>this_header\<close>. Nothing in the loop's shape bounds its iterations, so it is
  a partial function and its termination is a theorem.
\<close>

partial_function (option) mangle_loop ::
  "string list \<Rightarrow> (string \<Rightarrow> nat) \<Rightarrow> string \<Rightarrow> string \<Rightarrow> nat \<Rightarrow> ((string \<Rightarrow> nat) \<times> string \<times> nat) option" where
  "mangle_loop hdr counts old col cur =
     (if 0 < cur then
        (let counts' = counts(old := cur + 1); col' = suffixed old cur
         in if col' \<in> set hdr then mangle_loop hdr counts' old col' (cur + 1)
            else mangle_loop hdr counts' old col' (counts' col'))
      else Some (counts, col, cur))"

declare mangle_loop.simps [code]

text \<open>
  One round of \<open>for i in col_loop_order\<close>: \<open>old_col = col = this_header[i]\<close>,
  the loop from \<open>counts.get(col, 0)\<close>, then \<open>this_header[i] = col\<close> and
  \<open>counts[col] = cur_count + 1\<close>.
\<close>

fun mangle_col :: "string list \<times> (string \<Rightarrow> nat) \<Rightarrow> nat \<Rightarrow> (string list \<times> (string \<Rightarrow> nat)) option" where
  "mangle_col (hdr, counts) i =
     (let col = hdr ! i
      in case mangle_loop hdr counts col col (counts col) of
           None \<Rightarrow> None
         | Some (counts', col', cur) \<Rightarrow> Some (hdr[i := col'], counts'(col' := cur + 1)))"

fun mangle_cols :: "string list \<times> (string \<Rightarrow> nat) \<Rightarrow> nat list \<Rightarrow> (string list \<times> (string \<Rightarrow> nat)) option" where
  "mangle_cols st [] = Some st"
| "mangle_cols st (i # is) = (case mangle_col st i of None \<Rightarrow> None | Some st' \<Rightarrow> mangle_cols st' is)"

text \<open>The header with each empty field \<open>i\<close> named \<open>Unnamed: i\<close>.\<close>

definition unnamed_header :: "string list \<Rightarrow> string list" where
  "unnamed_header ws =
     map (\<lambda>(i, w). if w = [] then ''Unnamed: '' @ string_of_nat i else w) (enumerate 0 ws)"

text \<open>\<open>col_loop_order\<close>: the named fields first, then the unnamed ones, each in header order.\<close>

definition col_loop_order :: "string list \<Rightarrow> nat list" where
  "col_loop_order ws =
     filter (\<lambda>i. ws ! i \<noteq> []) [0..<length ws] @ filter (\<lambda>i. ws ! i = []) [0..<length ws]"

definition header_names :: "string list \<Rightarrow> string list option" where
  "header_names ws = map_option fst (mangle_cols (unnamed_header ws, \<lambda>_. 0) (col_loop_order ws))"

section \<open>The frame\<close>

text \<open>A row with fewer fields than the header gets missing values at the end.\<close>

definition pad_record :: "nat \<Rightarrow> string list \<Rightarrow> string list" where
  "pad_record n r = r @ replicate (n - length r) []"

definition build_frame :: "string list \<Rightarrow> string list list \<Rightarrow> error + frame" where
  "build_frame names rs =
     (let kinds = map (\<lambda>j. infer_kind (map (\<lambda>r. r ! j) rs)) [0..<length names]
      in if KInf \<in> set kinds then Inl Unrepresentable
         else Inr \<lparr>columns = names, dtypes = map dtype_of_kind kinds,
                   rows = map (\<lambda>(i, r). (i, map2 convert_cell kinds r)) (enumerate 0 rs)\<rparr>)"

text \<open>
  \<open>read_csv\<close> on the decoded text. No record at all is pandas'
  \<open>EmptyDataError\<close>; a first data row longer than the header makes pandas
  read the leading columns as the index, which this model's frames (labels
  \<open>0, 1, ...\<close>) cannot hold.
\<close>

definition read_csv :: "string \<Rightarrow> error + frame" where
  "read_csv t =
     (case tokenize t of
        None \<Rightarrow> Inl ParseError
      | Some [] \<Rightarrow> Inl ParseError
      | Some (hdr # rs) \<Rightarrow>
          (if rs \<noteq> [] \<and> length hdr < length (hd rs) then Inl Unrepresentable
           else if list_ex (\<lambda>r. length hdr < length r) rs then Inl ParseError
           else case header_names hdr of
                  None \<Rightarrow> Inl ParseError
                | Some names \<Rightarrow> build_frame names (map (pad_record (length hdr)) rs)))"

text \<open>
  The text of the specification's end-to-end example: five rows, \<open>x = 1..5\<close>,
  one missing \<open>y\<close>, a text column.
\<close>

definition spec_csv :: string where
  "spec_csv = ''x,y,name'' @ [LF] @ ''1,2,a'' @ [LF] @ ''2,4,b'' @ [LF] @ ''3,,c'' @ [LF] @
     ''4,8,d'' @ [LF] @ ''5,10,e'' @ [LF]"

text \<open>Decimal notation of an integer, as a CSV writer prints it.\<close>

definition string_of_int :: "int \<Rightarrow> string" where
  "string_of_int i = (if i < 0 then CHR ''-'' # string_of_nat (nat (- i)) else string_of_nat (nat i))"

text \<open>
  What the mangling loop keeps over the set \<open>D\<close> of positions it has
  visited (used in proofs): the visited names are distinct, each has a
  positive count, and only visited names have one.
\<close>

definition mangle_inv :: "string list \<Rightarrow> (string \<Rightarrow> nat) \<Rightarrow> nat set \<Rightarrow> bool" where
  "mangle_inv hdr counts D \<longleftrightarrow>
     (\<forall>j\<in>D. j < length hdr) \<and> (\<forall>j\<in>D. \<forall>k\<in>D. j \<noteq> k \<longrightarrow> hdr ! j \<noteq> hdr ! k) \<and>
     (\<forall>j\<in>D. 0 < counts (hdr ! j)) \<and> (\<forall>m. 0 < counts m \<longrightarrow> m \<in> (\<lambda>j. hdr ! j) ` D)"

section \<open>Lemmas\<close>

lemma kind_conforms:
  assumes "v \<in> set vs" and "infer_kind vs \<noteq> KInf"
  shows "cell_conforms (dtype_of_kind (infer_kind vs)) (convert_cell (infer_kind vs) v)"
proof (cases "infer_kind vs")
  case KInt
  then have "\<not> is_na v \<and> int64_field v" using assms(1)
    by (auto simp: infer_kind_def list_all_iff split: if_splits)
  then obtain i where "\<not> is_na v" "parse_int v = Some i"
    by (auto simp: int64_field_def split: option.splits)
  with KInt show ?thesis by (simp add: convert_cell_def)
next
  case KFloat
  then have "is_na v \<or> parse_float v \<noteq> None" using assms(1)
    by (auto simp: infer_kind_def list_all_iff split: if_splits)
  with KFloat show ?thesis by (auto simp: convert_cell_def)
next
  case KInf
  with assms(2) show ?thesis by simp
next
  case KBool
  then have "\<not> is_na v \<and> parse_bool v \<noteq> None" using assms(1)
    by (auto simp: infer_kind_def list_all_iff list_ex_iff split: if_splits)
  with KBool show ?thesis by (auto simp: convert_cell_def)
next
  case KBoolNA
  then show ?thesis by (auto simp: convert_cell_def split: option.splits)
next
  case KObject
  then show ?thesis by (simp add: convert_cell_def)
qed

lemma build_frame_wf:
  assumes "build_frame names rs = Inr f" and "distinct names"
    and "\<forall>r\<in>set rs. length r = length names"
  shows "wf_frame f"
proof -
  define kinds where "kinds = map (\<lambda>j. infer_kind (map (\<lambda>r. r ! j) rs)) [0..<length names]"
  from assms(1) have noinf: "KInf \<notin> set kinds"
    and f: "f = \<lparr>columns = names, dtypes = map dtype_of_kind kinds,
                 rows = map (\<lambda>(i, r). (i, map2 convert_cell kinds r)) (enumerate 0 rs)\<rparr>"
    by (simp_all add: build_frame_def kinds_def Let_def split: if_splits)
  have rowok: "list_all2 cell_conforms (map dtype_of_kind kinds) (map2 convert_cell kinds r)"
    if r: "r \<in> set rs" for r
  proof (rule list_all2_all_nthI)
    show "length (map dtype_of_kind kinds) = length (map2 convert_cell kinds r)"
      using assms(3) r by (simp add: kinds_def)
  next
    fix j assume "j < length (map dtype_of_kind kinds)"
    then have j: "j < length names" by (simp add: kinds_def)
    let ?vs = "map (\<lambda>r. r ! j) rs"
    have kj: "kinds ! j = infer_kind ?vs" using j by (simp add: kinds_def)
    have "r ! j \<in> set ?vs" using r by simp
    moreover have "infer_kind ?vs \<noteq> KInf" using noinf kj j by (metis kinds_def length_map length_upt minus_nat.diff_0 nth_mem)
    ultimately have "cell_conforms (dtype_of_kind (infer_kind ?vs)) (convert_cell (infer_kind ?vs) (r ! j))"
      by (rule kind_conforms)
    then show "cell_conforms (map dtype_of_kind kinds ! j) (map2 convert_cell kinds r ! j)"
      using j kj assms(3) r by (simp add: kinds_def)
  qed
  have "distinct (map fst (enumerate 0 rs))" by (simp add: enumerate_eq_zip)
  moreover have "list_all (\<lambda>(i, r). list_all2 cell_conforms (map dtype_of_kind kinds) r)
                   (map (\<lambda>(i, r). (i, map2 convert_cell kinds r)) (enumerate 0 rs))"
    using rowok by (auto simp: list_all_iff enumerate_eq_zip dest: set_zip_rightD)
  ultimately show ?thesis
    using assms(2) f by (simp add: wf_frame_def kinds_def comp_def split_def)
qed

lemma length_pad_record:
  "length r \<le> n \<Longrightarrow> length (pad_record n r) = n"
  by (simp add: pad_record_def)

lemma digit_char: "d < 10 \<Longrightarrow> is_digit (char_of (d + 48)) \<and> digit_val (char_of (d + 48)) = d"
  by (simp add: is_digit_def digit_val_def of_char_of)

lemma string_of_nat_digits:
  "string_of_nat n \<noteq> [] \<and> list_all is_digit (string_of_nat n) \<and> digits_val (string_of_nat n) = n"
proof (induction n rule: string_of_nat.induct)
  case (1 n)
  have d: "is_digit (char_of (n mod 10 + 48)) \<and> digit_val (char_of (n mod 10 + 48)) = n mod 10"
    by (rule digit_char) simp
  show ?case
  proof (cases "10 \<le> n")
    case True
    with 1 have ih: "string_of_nat (n div 10) \<noteq> [] \<and> list_all is_digit (string_of_nat (n div 10)) \<and>
                     digits_val (string_of_nat (n div 10)) = n div 10" by simp
    have "string_of_nat n = string_of_nat (n div 10) @ [char_of (n mod 10 + 48)]"
      using True by (subst string_of_nat.simps) (simp add: Let_def)
    with ih d show ?thesis by (simp add: digits_val_def)
  next
    case False
    then have "string_of_nat n = [char_of (n mod 10 + 48)]"
      by (subst string_of_nat.simps) (simp add: Let_def)
    with d False show ?thesis by (simp add: digits_val_def)
  qed
qed

lemma digit_not_space: "is_digit c \<Longrightarrow> \<not> is_space c"
  by (auto simp: is_digit_def is_space_def)

lemma strip_spaces_id:
  assumes "s \<noteq> []" and "\<not> is_space (hd s)" and "\<not> is_space (last s)"
  shows "strip_spaces s = s"
proof -
  have a: "dropWhile is_space s = s" using assms(1,2) by (cases s) simp_all
  have b: "dropWhile is_space (rev s) = rev s" using assms(1,3) by (cases s rule: rev_cases) simp_all
  show ?thesis by (simp add: strip_spaces_def a b)
qed

lemma na_values_last: "\<forall>v\<in>set na_values. v = [] \<or> \<not> is_digit (last v)"
  by (simp add: na_values_def is_digit_def)

lemma string_of_int_shape:
  "string_of_int i \<noteq> [] \<and> is_digit (last (string_of_int i))"
proof -
  from string_of_nat_digits [of "nat \<bar>i\<bar>"]
  have "string_of_nat (nat \<bar>i\<bar>) \<noteq> [] \<and> is_digit (last (string_of_nat (nat \<bar>i\<bar>)))"
    by (auto simp: list_all_iff)
  then show ?thesis by (cases "i < 0") (simp_all add: string_of_int_def)
qed

lemma string_of_int_not_na: "\<not> is_na (string_of_int i)"
  using na_values_last string_of_int_shape [of i] by (auto simp: is_na_def)

lemma inj_suffixed: "inj (suffixed old)"
proof (rule injI)
  fix a b assume "suffixed old a = suffixed old b"
  then have "digits_val (string_of_nat a) = digits_val (string_of_nat b)" by (simp add: suffixed_def)
  then show "a = b" by (simp add: string_of_nat_digits)
qed

lemma suffixed_neq [simp]: "suffixed old k \<noteq> old"
  by (simp add: suffixed_def)

text \<open>The suffixed names of \<open>old\<close> from \<open>cur\<close> on that the header holds: finitely many.\<close>

lemma finite_suffixed_from: "finite {k. cur \<le> k \<and> suffixed old k \<in> set hdr}"
proof -
  have "finite (suffixed old -` set hdr)" by (rule finite_vimageI [OF finite_set inj_suffixed])
  then show ?thesis by (rule rev_finite_subset) auto
qed

text \<open>
  The inner loop returns from every dictionary whose positive counts are on
  names of the header or on \<open>old\<close>: each round either moves \<open>cur\<close> past a
  suffixed name the header holds, of which there are finitely many, or
  reaches a name outside the header, whose count is \<open>0\<close>. A name it makes is
  not in the header and has no count; only \<open>old\<close>'s count changes.
\<close>

lemma mangle_loop_spec:
  assumes "\<forall>n. 0 < counts n \<longrightarrow> n \<in> set hdr \<or> n = old"
  shows "\<exists>counts' col'. mangle_loop hdr counts old col cur = Some (counts', col', 0) \<and>
           (\<forall>k. k \<noteq> old \<longrightarrow> counts' k = counts k) \<and>
           (if 0 < cur then col' \<notin> set hdr \<and> counts' col' = 0 \<and> 0 < counts' old
            else col' = col \<and> counts' = counts)"
  using assms
proof (induction "card {k. cur \<le> k \<and> suffixed old k \<in> set hdr}" arbitrary: counts col cur
       rule: less_induct)
  case less
  show ?case
  proof (cases "0 < cur")
    case False
    then show ?thesis by (simp add: mangle_loop.simps)
  next
    case True
    define c1 where "c1 = counts(old := cur + 1)"
    define col1 where "col1 = suffixed old cur"
    have inv1: "\<forall>n. 0 < c1 n \<longrightarrow> n \<in> set hdr \<or> n = old"
      using less.prems by (auto simp: c1_def)
    have same: "\<forall>k. k \<noteq> old \<longrightarrow> c1 k = counts k" by (simp add: c1_def)
    show ?thesis
    proof (cases "col1 \<in> set hdr")
      case hit: True
      have unf: "mangle_loop hdr counts old col cur = mangle_loop hdr c1 old col1 (cur + 1)"
        using True hit by (subst mangle_loop.simps) (simp add: c1_def col1_def Let_def)
      have sub: "{k. Suc cur \<le> k \<and> suffixed old k \<in> set hdr} \<subseteq> {k. cur \<le> k \<and> suffixed old k \<in> set hdr}"
        by auto
      have "cur \<in> {k. cur \<le> k \<and> suffixed old k \<in> set hdr} - {k. Suc cur \<le> k \<and> suffixed old k \<in> set hdr}"
        using hit by (simp add: col1_def)
      with sub have "{k. Suc cur \<le> k \<and> suffixed old k \<in> set hdr} \<subset> {k. cur \<le> k \<and> suffixed old k \<in> set hdr}"
        by blast
      then have "card {k. cur + 1 \<le> k \<and> suffixed old k \<in> set hdr}
                 < card {k. cur \<le> k \<and> suffixed old k \<in> set hdr}"
        by (simp add: psubset_card_mono finite_suffixed_from)
      from less.hyps [where col = col1, OF this inv1] obtain counts' col' where
        r: "mangle_loop hdr c1 old col1 (cur + 1) = Some (counts', col', 0)"
          "\<forall>k. k \<noteq> old \<longrightarrow> counts' k = c1 k" "col' \<notin> set hdr" "counts' col' = 0" "0 < counts' old"
        by auto
      with unf same True show ?thesis by auto
    next
      case miss: False
      have z: "c1 col1 = 0"
        using miss less.prems by (auto simp: c1_def col1_def)
      have "mangle_loop hdr counts old col cur = mangle_loop hdr c1 old col1 (c1 col1)"
        using True miss by (subst mangle_loop.simps) (simp add: c1_def col1_def Let_def)
      also have "\<dots> = Some (c1, col1, 0)" using z by (simp add: mangle_loop.simps)
      finally show ?thesis using same True miss z by (auto simp: c1_def)
    qed
  qed
qed

text \<open>One round of the outer loop keeps \<open>mangle_inv\<close>; on a name with no count it changes nothing in the header.\<close>

lemma mangle_col_step:
  assumes inv: "mangle_inv hdr counts D" and i: "i < length hdr" "i \<notin> D"
  shows "\<exists>hdr2 counts2. mangle_col (hdr, counts) i = Some (hdr2, counts2) \<and>
           length hdr2 = length hdr \<and> mangle_inv hdr2 counts2 (insert i D) \<and>
           (counts (hdr ! i) = 0 \<longrightarrow> hdr2 = hdr)"
proof -
  define col where "col = hdr ! i"
  have img: "\<forall>m. 0 < counts m \<longrightarrow> m \<in> (\<lambda>j. hdr ! j) ` D"
    and pos: "\<forall>j\<in>D. 0 < counts (hdr ! j)" and lt: "\<forall>j\<in>D. j < length hdr"
    and dis: "\<forall>j\<in>D. \<forall>k\<in>D. j \<noteq> k \<longrightarrow> hdr ! j \<noteq> hdr ! k"
    using inv by (simp_all add: mangle_inv_def)
  have "\<forall>n. 0 < counts n \<longrightarrow> n \<in> set hdr \<or> n = col"
    using img lt by (auto simp: in_set_conv_nth)
  from mangle_loop_spec [OF this, of col "counts col"] obtain counts1 col1 where
    lp: "mangle_loop hdr counts col col (counts col) = Some (counts1, col1, 0)"
    and same: "\<forall>k. k \<noteq> col \<longrightarrow> counts1 k = counts k"
    and cases: "if 0 < counts col then col1 \<notin> set hdr \<and> counts1 col1 = 0 \<and> 0 < counts1 col
                else col1 = col \<and> counts1 = counts"
    by blast
  define hdr2 where "hdr2 = hdr[i := col1]"
  define counts2 where "counts2 = counts1(col1 := 1)"
  have mc: "mangle_col (hdr, counts) i = Some (hdr2, counts2)"
    using lp by (simp add: hdr2_def counts2_def col_def [symmetric])
  have nth2: "hdr2 ! j = (if j = i then col1 else hdr ! j)" if "j < length hdr" for j
    using that i by (simp add: hdr2_def nth_list_update)
  have fresh: "\<forall>j\<in>D. hdr ! j \<noteq> col1"
  proof (cases "0 < counts col")
    case True
    with cases lt show ?thesis by (auto simp: in_set_conv_nth)
  next
    case False
    with cases pos show ?thesis by auto
  qed
  have inv2: "mangle_inv hdr2 counts2 (insert i D)"
    unfolding mangle_inv_def
  proof (intro conjI ballI allI impI)
    fix j assume "j \<in> insert i D"
    then show "j < length hdr2" using lt i by (auto simp: hdr2_def)
  next
    fix j k assume "j \<in> insert i D" "k \<in> insert i D" "j \<noteq> k"
    then show "hdr2 ! j \<noteq> hdr2 ! k"
      using dis fresh lt i nth2 by (metis insertE)
  next
    fix j assume "j \<in> insert i D"
    then show "0 < counts2 (hdr2 ! j)"
    proof
      assume "j = i"
      then show ?thesis using i by (simp add: hdr2_def counts2_def)
    next
      assume j: "j \<in> D"
      then have "hdr2 ! j = hdr ! j" using nth2 lt i by auto
      moreover have "0 < counts1 (hdr ! j)"
        using same pos j cases by (cases "hdr ! j = col") (auto split: if_splits)
      ultimately show ?thesis by (simp add: counts2_def)
    qed
  next
    fix m assume m: "0 < counts2 m"
    show "m \<in> (\<lambda>j. hdr2 ! j) ` insert i D"
    proof (cases "m = col1")
      case True
      then show ?thesis using i by (simp add: hdr2_def)
    next
      case False
      with m have "0 < counts1 m" by (simp add: counts2_def)
      then have "0 < counts m"
        using same cases by (cases "m = col") (auto simp: col_def split: if_splits)
      then obtain j where j: "j \<in> D" "m = hdr ! j" using img by blast
      then have "hdr2 ! j = m" using nth2 lt i by auto
      with j(1) show ?thesis by force
    qed
  qed
  have "counts col = 0 \<longrightarrow> hdr2 = hdr"
    using cases by (simp add: hdr2_def col_def)
  with mc inv2 show ?thesis by (auto simp: hdr2_def col_def)
qed

lemma mangle_cols_spec:
  assumes "mangle_inv hdr counts D" and "distinct js" and "set js \<inter> D = {}"
    and "\<forall>i\<in>set js. i < length hdr"
  shows "\<exists>hdr' counts'. mangle_cols (hdr, counts) js = Some (hdr', counts') \<and>
           length hdr' = length hdr \<and> mangle_inv hdr' counts' (D \<union> set js) \<and>
           (distinct hdr \<longrightarrow> hdr' = hdr)"
  using assms
proof (induction js arbitrary: hdr counts D)
  case Nil
  then show ?case by simp
next
  case (Cons i js)
  have i: "i < length hdr" "i \<notin> D" using Cons.prems by auto
  obtain hdr2 counts2 where st: "mangle_col (hdr, counts) i = Some (hdr2, counts2)"
    and len: "length hdr2 = length hdr" and inv2: "mangle_inv hdr2 counts2 (insert i D)"
    and keep: "counts (hdr ! i) = 0 \<longrightarrow> hdr2 = hdr"
    using mangle_col_step [OF Cons.prems(1) i] by auto
  have "\<exists>hdr' counts'. mangle_cols (hdr2, counts2) js = Some (hdr', counts') \<and>
          length hdr' = length hdr2 \<and> mangle_inv hdr' counts' (insert i D \<union> set js) \<and>
          (distinct hdr2 \<longrightarrow> hdr' = hdr2)"
    using Cons.prems len by (intro Cons.IH [OF inv2]) auto
  then obtain hdr' counts' where r: "mangle_cols (hdr2, counts2) js = Some (hdr', counts')"
    "length hdr' = length hdr2" "mangle_inv hdr' counts' (insert i D \<union> set js)"
    "distinct hdr2 \<longrightarrow> hdr' = hdr2" by blast
  have "distinct hdr \<longrightarrow> hdr2 = hdr"
  proof
    assume d: "distinct hdr"
    have "counts (hdr ! i) = 0"
    proof (rule ccontr)
      assume "counts (hdr ! i) \<noteq> 0"
      then have "hdr ! i \<in> (\<lambda>j. hdr ! j) ` D"
        using Cons.prems(1) by (simp add: mangle_inv_def)
      then obtain j where "j \<in> D" "hdr ! i = hdr ! j" by blast
      with d i Cons.prems(1) show False by (auto simp: mangle_inv_def nth_eq_iff_index_eq)
    qed
    with keep show "hdr2 = hdr" by blast
  qed
  with st r len show ?case by auto
qed

lemma col_loop_order_set: "distinct (col_loop_order ws) \<and> set (col_loop_order ws) = {..<length ws}"
  by (auto simp: col_loop_order_def)

lemma length_unnamed_header [simp]: "length (unnamed_header ws) = length ws"
  by (simp add: unnamed_header_def)

lemma unnamed_header_id:
  assumes "[] \<notin> set ws"
  shows "unnamed_header ws = ws"
proof -
  have "\<forall>x\<in>set (enumerate 0 ws). snd x \<noteq> []"
    using assms by (auto simp: enumerate_eq_zip dest: set_zip_rightD)
  then have "map (\<lambda>(i, w). if w = [] then ''Unnamed: '' @ string_of_nat i else w) (enumerate 0 ws) =
             map snd (enumerate 0 ws)"
    by (intro map_cong) auto
  then show ?thesis by (simp add: unnamed_header_def enumerate_eq_zip)
qed

text \<open>The mangling from the empty dictionary over every position of the header.\<close>

lemma header_names_mangle:
  "\<exists>hdr' counts'. mangle_cols (unnamed_header ws, \<lambda>_. 0) (col_loop_order ws) = Some (hdr', counts') \<and>
     length hdr' = length ws \<and> distinct hdr' \<and> (distinct (unnamed_header ws) \<longrightarrow> hdr' = unnamed_header ws)"
proof -
  have inv: "mangle_inv (unnamed_header ws) (\<lambda>_. 0) {}" by (simp add: mangle_inv_def)
  have o: "distinct (col_loop_order ws)" "set (col_loop_order ws) = {..<length ws}"
    using col_loop_order_set by auto
  have "\<exists>hdr' counts'. mangle_cols (unnamed_header ws, \<lambda>_. 0) (col_loop_order ws) = Some (hdr', counts') \<and>
          length hdr' = length (unnamed_header ws) \<and>
          mangle_inv hdr' counts' ({} \<union> set (col_loop_order ws)) \<and>
          (distinct (unnamed_header ws) \<longrightarrow> hdr' = unnamed_header ws)"
    by (rule mangle_cols_spec [OF inv o(1)]) (simp_all add: o(2))
  then obtain hdr' counts' where r: "mangle_cols (unnamed_header ws, \<lambda>_. 0) (col_loop_order ws) = Some (hdr', counts')"
    "length hdr' = length ws" "mangle_inv hdr' counts' {..<length ws}"
    "distinct (unnamed_header ws) \<longrightarrow> hdr' = unnamed_header ws"
    using o(2) by auto
  from r(2,3) have "distinct hdr'" by (auto simp: mangle_inv_def distinct_conv_nth)
  with r show ?thesis by blast
qed

lemma header_names_spec:
  "\<exists>ns. header_names ws = Some ns \<and> length ns = length ws \<and> distinct ns"
  using header_names_mangle [of ws] by (auto simp: header_names_def)

section \<open>Properties of read_csv\<close>

text \<open>
  C12: every table \<open>read_csv\<close> returns is well formed: one dtype per column,
  distinct column names (after the mangling), distinct row labels, and every
  cell of the kind its column's dtype holds (integral numbers in an int64
  column, numbers or NaN in a float64 column, booleans in a bool column, no
  number in an object column).
\<close>

theorem read_csv_wf:
  assumes "read_csv t = Inr f"
  shows "wf_frame f"
proof -
  obtain hdr rs where tk: "tokenize t = Some (hdr # rs)"
  proof (cases "tokenize t")
    case None
    with assms show ?thesis by (simp add: read_csv_def)
  next
    case (Some x)
    with assms that show ?thesis by (cases x) (simp_all add: read_csv_def)
  qed
  with assms have r: "(if rs \<noteq> [] \<and> length hdr < length (hd rs) then Inl Unrepresentable
           else if list_ex (\<lambda>r. length hdr < length r) rs then Inl ParseError
           else case header_names hdr of
                  None \<Rightarrow> Inl ParseError
                | Some names \<Rightarrow> build_frame names (map (pad_record (length hdr)) rs)) = Inr f"
    by (simp add: read_csv_def)
  then have short: "\<not> list_ex (\<lambda>r. length hdr < length r) rs"
    and bf: "\<exists>names. header_names hdr = Some names \<and> build_frame names (map (pad_record (length hdr)) rs) = Inr f"
    by (auto split: if_splits option.splits)
  then obtain names where hn: "header_names hdr = Some names"
    and b: "build_frame names (map (pad_record (length hdr)) rs) = Inr f" by blast
  from header_names_spec [of hdr] hn have len: "length names = length hdr" and d: "distinct names"
    by auto
  have "\<forall>r\<in>set (map (pad_record (length hdr)) rs). length r = length names"
    using short len by (auto simp: list_ex_iff length_pad_record)
  from build_frame_wf [OF b d this] show ?thesis .
qed

theorem read_csv_wf_witness:
  "read_csv spec_csv = Inr sample_frame \<and> wf_frame sample_frame"
proof -
  have e: "read_csv spec_csv = Inr sample_frame" by code_simp
  from e read_csv_wf [OF e] show ?thesis by blast
qed

text \<open>
  C16: the inner loop of the name mangling always ends when every name with
  a count is in the header (every dictionary the outer loop builds), and
  the name it makes for a repeated column is not in the header.
\<close>

theorem mangle_loop_terminates:
  assumes "{n. 0 < counts n} \<subseteq> set hdr"
  shows "\<exists>counts' col'. mangle_loop hdr counts old col cur = Some (counts', col', 0) \<and>
           (0 < cur \<longrightarrow> col' \<notin> set hdr)"
proof -
  from assms have "\<forall>n. 0 < counts n \<longrightarrow> n \<in> set hdr \<or> n = old" by blast
  from mangle_loop_spec [OF this, of col cur] show ?thesis by (auto split: if_splits)
qed

theorem mangle_loop_terminates_witness:
  "{n. 0 < ((\<lambda>_. 0 :: nat)(''a'' := 1)) n} \<subseteq> set [''a'', ''a'', ''a.1''] \<and>
   (\<exists>counts'. mangle_loop [''a'', ''a'', ''a.1''] ((\<lambda>_. 0)(''a'' := 1)) ''a'' ''a'' 1 = Some (counts', ''a.2'', 0)) \<and>
   ''a.2'' \<notin> set [''a'', ''a'', ''a.1'']"
proof -
  have sub: "{n. 0 < ((\<lambda>_. 0 :: nat)(''a'' := 1)) n} \<subseteq> set [''a'', ''a'', ''a.1'']" by auto
  have ev: "map_option (\<lambda>(c, n, k). (n, k))
              (mangle_loop [''a'', ''a'', ''a.1''] ((\<lambda>_. 0)(''a'' := 1)) ''a'' ''a'' 1) = Some (''a.2'', 0)"
    by code_simp
  have "\<exists>counts' col'. mangle_loop [''a'', ''a'', ''a.1''] ((\<lambda>_. 0)(''a'' := 1)) ''a'' ''a'' 1 =
           Some (counts', col', 0) \<and> (0 < (1::nat) \<longrightarrow> col' \<notin> set [''a'', ''a'', ''a.1''])"
    by (rule mangle_loop_terminates [OF sub])
  then obtain counts' col' where
    r: "mangle_loop [''a'', ''a'', ''a.1''] ((\<lambda>_. 0)(''a'' := 1)) ''a'' ''a'' 1 = Some (counts', col', 0)"
    and f: "0 < (1::nat) \<longrightarrow> col' \<notin> set [''a'', ''a'', ''a.1'']"
    by (elim exE conjE)
  from r ev have "col' = ''a.2''" by simp
  with r f sub show ?thesis by auto
qed

text \<open>
  C15: the column-name mangling returns one name per header field, and the
  names are distinct, whatever the header holds (repeated names, empty
  fields, names that look like renamed ones).
\<close>

theorem header_names_distinct:
  "\<exists>ns. header_names ws = Some ns \<and> length ns = length ws \<and> distinct ns"
  by (rule header_names_spec)

theorem header_names_distinct_witness:
  "header_names [''a'', ''a'', ''a.1''] = Some [''a'', ''a.2'', ''a.1''] \<and> distinct [''a'', ''a.2'', ''a.1''] \<and>
   header_names [[], ''Unnamed: 0''] = Some [''Unnamed: 0.1'', ''Unnamed: 0''] \<and>
   distinct [''Unnamed: 0.1'', ''Unnamed: 0'']"
proof -
  have e1: "header_names [''a'', ''a'', ''a.1''] = Some [''a'', ''a.2'', ''a.1'']" by code_simp
  have e2: "header_names [[], ''Unnamed: 0''] = Some [''Unnamed: 0.1'', ''Unnamed: 0'']" by code_simp
  from header_names_distinct [of "[''a'', ''a'', ''a.1'']"] header_names_distinct [of "[[], ''Unnamed: 0'']"] e1 e2
  show ?thesis by auto
qed

text \<open>
  C17: a header of distinct non-empty names is kept as it is.
\<close>

theorem header_names_keep:
  assumes "distinct ws" and "[] \<notin> set ws"
  shows "header_names ws = Some ws"
  using header_names_mangle [of ws] assms by (auto simp: header_names_def unnamed_header_id)

theorem header_names_keep_witness:
  "distinct [''x'', ''y'', ''name''] \<and> [] \<notin> set [''x'', ''y'', ''name''] \<and>
   header_names [''x'', ''y'', ''name''] = Some [''x'', ''y'', ''name'']"
proof -
  have d: "distinct [''x'', ''y'', ''name'']" by simp
  have n: "[] \<notin> set [''x'', ''y'', ''name'']" by simp
  from d n header_names_keep [OF d n] show ?thesis by blast
qed

lemma parse_int_decimal: "parse_int (string_of_int i) = Some i"
proof -
  define s where "s = string_of_nat (nat \<bar>i\<bar>)"
  from string_of_nat_digits [of "nat \<bar>i\<bar>"] have ne: "s \<noteq> []" and dg: "list_all is_digit s"
    and v: "digits_val s = nat \<bar>i\<bar>" by (simp_all add: s_def)
  from ne dg have hd: "is_digit (hd s)" and lst: "is_digit (last s)"
    by (auto simp: list_all_iff)
  then have hd_sign: "hd s \<noteq> CHR ''-'' \<and> hd s \<noteq> CHR ''+''" by (auto simp: is_digit_def)
  from hd lst have hs: "\<not> is_space (hd s)" and ls: "\<not> is_space (last s)"
    using digit_not_space by blast+
  show ?thesis
  proof (cases "i < 0")
    case True
    then have str: "string_of_int i = CHR ''-'' # s" by (simp add: string_of_int_def s_def)
    have "strip_spaces (CHR ''-'' # s) = CHR ''-'' # s"
      using ne ls by (intro strip_spaces_id) (simp_all add: is_space_def)
    with True ne dg v show ?thesis by (simp add: str parse_int_def split_sign_def)
  next
    case False
    then have str: "string_of_int i = s" by (simp add: string_of_int_def s_def)
    have "strip_spaces s = s"
      using ne hs ls by (rule strip_spaces_id)
    moreover obtain c r where cr: "s = c # r" using ne by (cases s) auto
    ultimately show ?thesis
      using False dg v hd_sign by (simp add: str parse_int_def split_sign_def)
  qed
qed


text \<open>
  C19: the integer parser reads back every integer written in decimal
  notation, negative ones with their minus sign.
\<close>

theorem parse_int_string_of_int: "parse_int (string_of_int i) = Some i"
  by (rule parse_int_decimal)

text \<open>
  C20: a non-empty column of int64 integers written in decimal is inferred
  int64 and holds exactly those integers.
\<close>

theorem read_int_column:
  assumes "is \<noteq> []" and "\<forall>i\<in>set is. - (2 ^ 63) \<le> i \<and> i < 2 ^ 63"
  shows "infer_kind (map string_of_int is) = KInt \<and>
         map (convert_cell KInt) (map string_of_int is) = map (\<lambda>i. CNum (real_of_int i)) is"
proof -
  have "list_all (\<lambda>v. \<not> is_na v \<and> int64_field v) (map string_of_int is)"
    using assms(2) by (simp add: list_all_iff string_of_int_not_na int64_field_def parse_int_decimal)
  then show ?thesis
    using assms(1) by (simp add: infer_kind_def convert_cell_def string_of_int_not_na parse_int_decimal)
qed

theorem read_int_column_witness:
  "[1, -20, 300] \<noteq> ([] :: int list) \<and>
   - (2 ^ 63) \<le> (1 :: int) \<and> (1 :: int) < 2 ^ 63 \<and> - (2 ^ 63) \<le> (-20 :: int) \<and> (-20 :: int) < 2 ^ 63 \<and>
   - (2 ^ 63) \<le> (300 :: int) \<and> (300 :: int) < 2 ^ 63 \<and>
   infer_kind (map string_of_int [1, -20, 300]) = KInt \<and>
   map (convert_cell KInt) (map string_of_int [1, -20, 300]) = [CNum 1, CNum (-20), CNum 300]"
proof -
  have ne: "[1, -20, 300] \<noteq> ([] :: int list)" by simp
  have b: "\<forall>i\<in>set [1, -20, 300]. - (2 ^ 63) \<le> (i :: int) \<and> i < 2 ^ 63" by simp
  from read_int_column [OF ne b] show ?thesis by simp
qed

end
