(* ===== verification/Dashboard.thy ===== *)
theory Dashboard
  imports Sidebar Missing Stats Corr CsvRead
begin

text \<open>
  One run of \<open>src/app.py\<close>: Streamlit executes the script top to bottom on
  every interaction. The run is modelled as the list of elements it renders,
  in order. Without an upload the script shows the prompt (line 91); when
  \<open>pd.read_csv\<close> raises (line 15) or any later call raises, the page ends with
  the error box Streamlit shows and nothing after it is rendered. The body
  (lines 17--88) composes the components: preview, dataset info, missing
  values, summary statistics, the sidebar filter, the filtered preview, the
  chart of one numeric column of the filtered view, and the correlation
  matrix of the numeric columns of the whole table.
\<close>

section \<open>Page elements\<close>

datatype section_id =
  DataPreview | DatasetInfo | MissingValues | SummaryStatistics | FilteredData
| ColumnVisualization | CorrelationMatrix

datatype metric = Rows | Columns | MissingCells

datatype element =
  Title | Intro | Uploader | UploadPrompt
| Subheader section_id
| FrameView frame
| Metric metric nat
| MissingListing "(label \<times> nat) list" | NoMissingMessage
| SummaryView summary
| SidebarHeader
| ColumnSelect "label list" label
| RangeSlider "real option" "real option" "real option \<times> real option"
| ChartSelect "label list" label
| LineChart "(nat \<times> cell) list"
| CorrView corr_matrix
| ErrorBox error

section \<open>The script\<close>

text \<open>Lines 77--83: the chart of one numeric column of the filtered view.\<close>

definition chart_section :: "frame \<Rightarrow> frame \<Rightarrow> ui \<Rightarrow> error + element list" where
  "chart_section df fdf u =
     (let ncols = numeric_cols df in
      if 0 < length ncols then
        (let cc = selectbox ncols (pick_chart u) in
         case get_column fdf cc of
           Inl e \<Rightarrow> Inl e
         | Inr s \<Rightarrow> Inr [ChartSelect ncols cc, LineChart s])
      else Inr [])"

text \<open>
  Lines 48--51 as rendered: the column select box, shown before the slider
  is built.
\<close>

definition select_view :: "frame \<Rightarrow> ui \<Rightarrow> element list" where
  "select_view df u =
     (let ncols = numeric_cols df in
      if 0 < length ncols then [ColumnSelect ncols (selectbox ncols (pick_col u))] else [])"

text \<open>Lines 43--68 as rendered: the sidebar controls, when there are any.\<close>

definition controls_view :: "frame \<Rightarrow> controls option \<Rightarrow> element list" where
  "controls_view df ctl =
     (case ctl of
        None \<Rightarrow> []
      | Some c \<Rightarrow> [ColumnSelect (numeric_cols df) (sel_col c),
                   RangeSlider (min_val c) (max_val c) (sel_range c)])"

text \<open>
  Line 88: \<open>st.dataframe(corr.style.background_gradient(cmap="coolwarm"))\<close>.
  The gradient imports matplotlib when it colours a non-empty matrix (an
  empty one is not styled at all); \<open>mpl\<close> says whether matplotlib is
  installed beside Streamlit, which does not require it.
\<close>

definition corr_view :: "bool \<Rightarrow> corr_matrix \<Rightarrow> element" where
  "corr_view mpl m = (if mpl \<or> labels m = [] then CorrView m else ErrorBox ImportError)"

text \<open>Lines 17--41: preview, dataset info, missing values, summary statistics.\<close>

definition page_top :: "frame \<Rightarrow> element list" where
  "page_top df =
     [Subheader DataPreview, FrameView (head 5 df),
      Subheader DatasetInfo, Metric Rows (fst (shape df)), Metric Columns (snd (shape df)),
      Metric MissingCells (missing_cells df),
      Subheader MissingValues,
      (case missing_section df of MissingList m \<Rightarrow> MissingListing m | NoMissing \<Rightarrow> NoMissingMessage),
      Subheader SummaryStatistics, SummaryView (describe df)]"

text \<open>
  Lines 17--88, for a successfully loaded table. An exception of the sidebar
  (the slider's) ends the page after the column select box.
\<close>

definition page_body :: "bool \<Rightarrow> frame \<Rightarrow> ui \<Rightarrow> element list" where
  "page_body mpl df u =
     (let top = page_top df @ [SidebarHeader]
      in case sidebar_filter df u of
           Inl e \<Rightarrow> top @ select_view df u @ [ErrorBox e]
         | Inr (ctl, fdf) \<Rightarrow>
             (let mid = top @ controls_view df ctl @
                        [Subheader FilteredData, FrameView (head 5 fdf), Subheader ColumnVisualization]
              in case chart_section df fdf u of
                   Inl e \<Rightarrow> mid @ [ErrorBox e]
                 | Inr ch \<Rightarrow>
                     mid @ ch @ [Subheader CorrelationMatrix] @
                     (case corr_columns df (numeric_cols df) of
                        Inl e \<Rightarrow> [ErrorBox e]
                      | Inr m \<Rightarrow> [corr_view mpl m])))"

text \<open>
  The whole script: the upload is what \<open>st.file_uploader\<close> and
  \<open>pd.read_csv\<close> produced (\<open>None\<close>: no file; \<open>Inl\<close>: the parser raised).
\<close>

definition run_script :: "bool \<Rightarrow> (error + frame) option \<Rightarrow> ui \<Rightarrow> element list" where
  "run_script mpl up u =
     [Title, Intro, Uploader] @
     (case up of
        None \<Rightarrow> [UploadPrompt]
      | Some (Inl e) \<Rightarrow> [ErrorBox e]
      | Some (Inr df) \<Rightarrow> page_body mpl df u)"



fun is_control :: "element \<Rightarrow> bool" where
  "is_control (ColumnSelect cs c) = True"
| "is_control (RangeSlider lo hi r) = True"
| "is_control (ChartSelect cs c) = True"
| "is_control (LineChart s) = True"
| "is_control _ = False"

text \<open>A table with no numeric column.\<close>

definition obj_frame :: frame where
  "obj_frame = \<lparr>columns = [''city''], dtypes = [ObjectD], rows = [(0, [CStr ''Oslo'']), (1, [CStr ''Rome''])]\<rparr>"


section \<open>Lemmas\<close>

lemma those_map_Some:
  "(\<forall>c\<in>set cs. f c \<noteq> None) \<Longrightarrow> \<exists>js. those (map f cs) = Some js"
  by (induction cs) auto

lemma select_columns_present:
  "set cs \<subseteq> set (columns f) \<Longrightarrow> \<exists>g. select_columns f cs = Inr g \<and> columns g = cs"
proof -
  assume "set cs \<subseteq> set (columns f)"
  then have "\<forall>c\<in>set cs. col_pos (columns f) c \<noteq> None" by auto
  then obtain js where "those (map (col_pos (columns f)) cs) = Some js"
    using those_map_Some by blast
  then show ?thesis by (simp add: select_columns_def)
qed

lemma numeric_cols_subset: "set (numeric_cols f) \<subseteq> set (columns f)"
  by (auto simp: set_numeric_cols)

lemma corr_columns_numeric:
  "\<exists>m. corr_columns f (numeric_cols f) = Inr m \<and> labels m = numeric_cols f"
proof -
  obtain g where "select_columns f (numeric_cols f) = Inr g" and "columns g = numeric_cols f"
    using select_columns_present [OF numeric_cols_subset] by blast
  then show ?thesis by (simp add: corr_columns_def corr_def Let_def)
qed

lemma chart_section_Inr:
  assumes "columns fdf = columns df"
  shows "\<exists>ch. chart_section df fdf u = Inr ch"
proof (cases "numeric_cols df = []")
  case True
  then show ?thesis by (simp add: chart_section_def)
next
  case False
  define cc where "cc = selectbox (numeric_cols df) (pick_chart u)"
  from False have "cc \<in> set (numeric_cols df)" unfolding cc_def by (rule selectbox_mem)
  then obtain j where "col_pos (columns fdf) cc = Some j"
    using numeric_cols_col_pos assms by fastforce
  then have "get_column fdf cc = Inr (map (\<lambda>(i, r). (i, r ! j)) (rows fdf))"
    by (rule get_column_present)
  with False show ?thesis by (simp add: chart_section_def Let_def flip: cc_def)
qed

lemma chart_section_InrE:
  assumes "chart_section df fdf u = Inr ch"
  obtains "numeric_cols df = []" and "ch = []"
  | j where "numeric_cols df \<noteq> []"
      and "col_pos (columns fdf) (selectbox (numeric_cols df) (pick_chart u)) = Some j"
      and "ch = [ChartSelect (numeric_cols df) (selectbox (numeric_cols df) (pick_chart u)),
                 LineChart (map (\<lambda>(i, r). (i, r ! j)) (rows fdf))]"
  using assms
  by (cases "numeric_cols df = []";
      cases "col_pos (columns fdf) (selectbox (numeric_cols df) (pick_chart u))")
     (auto simp: chart_section_def get_column_def Let_def)

lemma sidebar_filter_columns:
  "sidebar_filter df u = Inr (ctl, fdf) \<Longrightarrow> columns fdf = columns df"
proof (cases ctl)
  case None
  then show "sidebar_filter df u = Inr (ctl, fdf) \<Longrightarrow> columns fdf = columns df"
    using sidebar_filter_NoneE by blast
next
  case (Some c)
  assume "sidebar_filter df u = Inr (ctl, fdf)"
  with Some have "sidebar_filter df u = Inr (Some c, fdf)" by simp
  then obtain j where "range_filter df (sel_col c) (sel_range c) = Inr fdf"
    by (rule sidebar_filter_SomeE)
  then show ?thesis using range_filter_view by blast
qed

lemma page_body_eval:
  assumes "sidebar_filter df u = Inr (ctl, fdf)" and "chart_section df fdf u = Inr ch"
    and "corr_columns df (numeric_cols df) = Inr m"
  shows "page_body mpl df u =
     page_top df @ [SidebarHeader] @ controls_view df ctl @
     [Subheader FilteredData, FrameView (head 5 fdf), Subheader ColumnVisualization] @
     ch @ [Subheader CorrelationMatrix, corr_view mpl m]"
  using assms by (simp add: page_body_def Let_def)

lemma page_body_Inl:
  "sidebar_filter df u = Inl e \<Longrightarrow>
     page_body mpl df u = page_top df @ [SidebarHeader] @ select_view df u @ [ErrorBox e]"
  by (simp add: page_body_def Let_def)

text \<open>Once the sidebar has passed, every later step of the body succeeds.\<close>

lemma page_body_steps:
  assumes sf: "sidebar_filter df u = Inr (ctl, fdf)"
  obtains ch m where "columns fdf = columns df"
    and "chart_section df fdf u = Inr ch" and "corr_columns df (numeric_cols df) = Inr m"
    and "labels m = numeric_cols df"
    and "page_body mpl df u =
       page_top df @ [SidebarHeader] @ controls_view df ctl @
       [Subheader FilteredData, FrameView (head 5 fdf), Subheader ColumnVisualization] @
       ch @ [Subheader CorrelationMatrix, corr_view mpl m]"
proof -
  from sf have cols: "columns fdf = columns df" by (rule sidebar_filter_columns)
  obtain ch where ch: "chart_section df fdf u = Inr ch"
    using chart_section_Inr [OF cols] by blast
  obtain m where m: "corr_columns df (numeric_cols df) = Inr m" and lab: "labels m = numeric_cols df"
    using corr_columns_numeric by blast
  from cols ch m lab page_body_eval [OF sf ch m] show ?thesis by (rule that)
qed

lemma sidebar_filter_cases:
  obtains (raises) e where "sidebar_filter df u = Inl e"
  | (passes) ctl fdf where "sidebar_filter df u = Inr (ctl, fdf)"
  by (cases "sidebar_filter df u") auto



lemma page_top_no_control: "\<not> list_ex is_control (page_top df)"
  by (simp add: page_top_def split: missing_view.split)



lemma chart_no_LineChart_top:
  "LineChart s \<notin> set (page_top df) \<and> LineChart s \<notin> set (controls_view df ctl) \<and>
   LineChart s \<notin> set (select_view df u)"
  by (simp add: page_top_def controls_view_def select_view_def Let_def
           split: missing_view.split option.split)




section \<open>Properties of a run of the script\<close>



text \<open>
  C9: the line chart plots the selected numeric column of the filtered
  view: one point per row the sidebar filter kept, with that row's label and
  its cell in the chart column.
\<close>

theorem page_chart_is_filtered_column:
  assumes "LineChart s \<in> set (run_script mpl (Some (Inr df)) u)"
  shows "\<exists>ctl fdf j. sidebar_filter df u = Inr (ctl, fdf) \<and>
           selectbox (numeric_cols df) (pick_chart u) \<in> set (numeric_cols df) \<and>
           col_pos (columns df) (selectbox (numeric_cols df) (pick_chart u)) = Some j \<and>
           s = map (\<lambda>(i, r). (i, r ! j)) (rows fdf)"
proof (cases df u rule: sidebar_filter_cases)
  case (raises e)
  with assms chart_no_LineChart_top show ?thesis
    by (auto simp: run_script_def page_body_Inl)
next
  case (passes ctl fdf)
  obtain ch m where cols: "columns fdf = columns df" and ch: "chart_section df fdf u = Inr ch"
    and pb: "page_body mpl df u =
       page_top df @ [SidebarHeader] @ controls_view df ctl @
       [Subheader FilteredData, FrameView (head 5 fdf), Subheader ColumnVisualization] @
       ch @ [Subheader CorrelationMatrix, corr_view mpl m]"
    using passes by (rule page_body_steps)
  from assms pb chart_no_LineChart_top have inch: "LineChart s \<in> set ch"
    by (auto simp: run_script_def corr_view_def)
  from ch show ?thesis
  proof (rule chart_section_InrE)
    assume "ch = []"
    with inch show ?thesis by simp
  next
    fix j
    assume ne: "numeric_cols df \<noteq> []"
      and j: "col_pos (columns fdf) (selectbox (numeric_cols df) (pick_chart u)) = Some j"
      and chv: "ch = [ChartSelect (numeric_cols df) (selectbox (numeric_cols df) (pick_chart u)),
                      LineChart (map (\<lambda>(i, r). (i, r ! j)) (rows fdf))]"
    from ne have "selectbox (numeric_cols df) (pick_chart u) \<in> set (numeric_cols df)"
      by (rule selectbox_mem)
    with passes j cols inch chv show ?thesis by auto
  qed
qed

theorem page_chart_is_filtered_column_witness:
  "LineChart [(1, CNum 2), (2, CNum 3), (3, CNum 4)] \<in> set (run_script True (Some (Inr sample_frame)) demo_ui) \<and>
   (\<exists>ctl fdf j. sidebar_filter sample_frame demo_ui = Inr (ctl, fdf) \<and>
      selectbox (numeric_cols sample_frame) (pick_chart demo_ui) \<in> set (numeric_cols sample_frame) \<and>
      col_pos (columns sample_frame) (selectbox (numeric_cols sample_frame) (pick_chart demo_ui)) = Some j \<and>
      [(1, CNum 2), (2, CNum 3), (3, CNum 4)] = map (\<lambda>(i, r). (i, r ! j)) (rows fdf))"
proof -
  define fdf where "fdf = bool_index sample_frame [False, True, True, True, False]"
  have sf: "sidebar_filter sample_frame demo_ui =
     Inr (Some \<lparr>sel_col = ''x'', min_val = Some 1, max_val = Some 5, sel_range = (Some 2, Some 4)\<rparr>, fdf)"
    unfolding fdf_def by (simp add: frame_simps demo_ui_def)
  have ch: "chart_section sample_frame fdf demo_ui =
     Inr [ChartSelect [''x'', ''y''] ''x'', LineChart [(1, CNum 2), (2, CNum 3), (3, CNum 4)]]"
    unfolding fdf_def by (simp add: chart_section_def frame_simps demo_ui_def)
  obtain m where m: "corr_columns sample_frame (numeric_cols sample_frame) = Inr m"
    using corr_columns_numeric by blast
  have mem: "LineChart [(1, CNum 2), (2, CNum 3), (3, CNum 4)] \<in> set (run_script True (Some (Inr sample_frame)) demo_ui)"
    by (simp add: run_script_def page_body_eval [OF sf ch m])
  with page_chart_is_filtered_column [OF mem] show ?thesis by blast
qed

text \<open>
  C10: a table with no numeric column gets no sidebar controls and no
  chart; the filtered preview is the head of the whole table and the
  correlation matrix is the empty one.
\<close>

theorem page_no_numeric_columns:
  assumes "numeric_cols df = []"
  shows "run_script mpl (Some (Inr df)) u =
           [Title, Intro, Uploader] @ page_top df @
           [SidebarHeader, Subheader FilteredData, FrameView (head 5 df), Subheader ColumnVisualization,
            Subheader CorrelationMatrix, CorrView \<lparr>labels = [], cells = []\<rparr>]"
proof -
  have sf: "sidebar_filter df u = Inr (None, df)" using assms by (rule sidebar_filter_empty)
  have ch: "chart_section df df u = Inr []" using assms by (simp add: chart_section_def)
  have m: "corr_columns df (numeric_cols df) = Inr \<lparr>labels = [], cells = []\<rparr>"
    using assms by (simp add: corr_columns_def select_columns_def corr_def)
  show ?thesis
    by (simp add: run_script_def page_body_eval [OF sf ch m] controls_view_def corr_view_def)
qed

theorem page_no_numeric_columns_witness:
  "numeric_cols obj_frame = [] \<and>
   run_script False (Some (Inr obj_frame)) demo_ui =
     [Title, Intro, Uploader] @ page_top obj_frame @
     [SidebarHeader, Subheader FilteredData, FrameView (head 5 obj_frame), Subheader ColumnVisualization,
      Subheader CorrelationMatrix, CorrView \<lparr>labels = [], cells = []\<rparr>]"
proof -
  have e: "numeric_cols obj_frame = []" by (simp add: obj_frame_def numeric_cols_def)
  from e page_no_numeric_columns [OF e] show ?thesis by blast
qed



end
