(* ===== verification/Spec2Isabelle.thy ===== *)
theory Spec2Isabelle
  imports Dashboard
begin

text \<open>
  \<^bold>\<open>A model of the EDA dashboard \<open>src/app.py\<close>.\<close>

  The program is one Streamlit script. Streamlit runs it from top to bottom
  on each interaction. Once a CSV file is uploaded (line 12) and parsed with
  \<open>pd.read_csv\<close> (line 15), the script renders, in order:
  \<^item> a preview (lines 18--19);
  \<^item> three metrics: rows, columns, missing cells (lines 22--26);
  \<^item> the per-column missing counts, or a success message (lines 29--36);
  \<^item> \<open>df.describe()\<close> (line 40);
  \<^item> a sidebar that picks a numeric column and a range with a two-handle
    slider, and filters the rows to that range (lines 43--68);
  \<^item> a preview of the filtered rows (lines 71--72);
  \<^item> a line chart of one numeric column of the filtered rows (lines 75--83);
  \<^item> the correlation matrix of the numeric columns, coloured by
    \<open>background_gradient\<close> (lines 86--88).
  Without a file it shows a prompt (line 91). An exception (the parser's,
  the slider's, matplotlib's missing import) ends the page with the error
  box Streamlit shows. The development models each part as HOL functions
  over one data-frame type and the whole run as the list of elements the
  page shows.

  \<^bold>\<open>Theories and correspondence with the code.\<close>
  \<^descr>[\<open>Prelude\<close>] Label type, the theorem collections \<open>frame_simps\<close> and
    \<open>stat_simps\<close>, and generic lemmas: boolean masks as filters, subsequences,
    sums over lists, Cauchy--Schwarz, and sums of squared deviations.
  \<^descr>[\<open>CsvTokenizer\<close>] Line 15, first half: the state machine of
    pandas' C tokenizer (\<open>tokenize_bytes\<close>) for the default options, one
    function per parser state (\<open>start_record\<close>, \<open>start_field\<close>, \<open>in_field\<close>,
    \<open>in_quoted\<close>, \<open>quote_in_quoted\<close>), \<open>tok_step\<close> for one character and
    \<open>tok_eof\<close> for the end of input. A minimal-quoting writer
    (\<open>render_csv\<close>) states what the tokenizer reads back.
  \<^descr>[\<open>CsvRead\<close>] Line 15, second half, as pandas 2 does it. It covers:
    \<^item> the default NA strings;
    \<^item> \<open>str_to_int64\<close>, \<open>precise_xstrtod\<close> and \<open>to_boolean\<close> as
      \<open>parse_int\<close>, \<open>parse_float\<close> and \<open>parse_bool\<close>;
    \<^item> per-column dtype inference (\<open>infer_kind\<close>);
    \<^item> the column names of \<open>TextReader._get_header\<close> (pandas 1.3 and
      later): \<open>Unnamed: i\<close> for an empty field (\<open>unnamed_header\<close>), named
      columns visited before unnamed ones (\<open>col_loop_order\<close>), and the
      mangling of a repeated name, \<open>mangle_col\<close> and \<open>mangle_cols\<close> around
      the \<open>while cur_count > 0\<close> loop, which skips every suffixed name the
      header holds, as the partial function \<open>mangle_loop\<close>;
    \<^item> the frame: short rows padded with NaN, rows labelled \<open>0, 1, ...\<close>
      (\<open>build_frame\<close>, \<open>read_csv\<close>).
  \<^descr>[\<open>Frame\<close>] The pandas data frame. A \<open>frame\<close> record holds \<open>columns\<close>,
    \<open>dtypes\<close>, and \<open>rows\<close> as (index label, cells) pairs. A \<open>cell\<close> is a number,
    a string, a boolean or \<open>NaN\<close>. \<open>wf_frame\<close> is the invariant
    \<open>read_csv\<close> establishes: one dtype per column, distinct labels, every cell
    conforming to its column's dtype. The operations the script calls are:
    \<open>shape\<close>, \<open>get_column\<close> (\<open>df[c]\<close>, \<open>KeyError\<close> on a missing label),
    \<open>head\<close>, \<open>bool_index\<close> (\<open>df[mask]\<close>), \<open>select_columns\<close> (\<open>df[cols]\<close>), and
    the NaN-skipping \<open>series_min\<close> and \<open>series_max\<close>. The \<open>error\<close> type holds
    every exception the page can end with.
  \<^descr>[\<open>Sidebar\<close>] Lines 43--68. \<open>numeric_cols\<close> is
    \<open>select_dtypes(include=np.number)\<close>. The widgets are modelled by the
    value they return, given the user's input in the \<open>ui\<close> record:
    \<^item> \<open>selectbox\<close> returns the pick when it is an option, else the first
      option;
    \<^item> \<open>slider\<close> raises \<open>StreamlitAPIException\<close> when its bounds are equal
      (\<open>bounds_equal\<close>, false for NaN), and otherwise returns a pick inside
      the bounds, else the default full range.
    \<open>range_filter\<close> is the mask \<open>(s >= lo) & (s <= hi)\<close>. It excludes NaN on
    either side, since a comparison with NaN is false. \<open>sidebar_filter\<close> is
    the whole if/else block. It returns the controls shown and
    \<open>filtered_df\<close>, or the slider's exception.
  \<^descr>[\<open>Missing\<close>] Lines 22--36: \<open>isnull_sum\<close> is \<open>df.isnull().sum()\<close>,
    \<open>missing_cells\<close> is the metric, and \<open>missing_section\<close> chooses between the
    listing and the success message.
  \<^descr>[\<open>Stats\<close>] Line 40: \<open>describe\<close>. For each numeric column,
    \<open>describe_numeric\<close> gives the count, the mean, the sample standard
    deviation (ddof 1), min and max, and the quartiles by numpy's linear
    interpolation (\<open>quantile k 4\<close>). A table without a numeric column gets
    \<open>describe_object\<close> (count, unique, top, freq) of every column.
  \<^descr>[\<open>Corr\<close>] Line 87: \<open>df[numeric_cols].corr()\<close>. pandas' \<open>nancorr\<close> is
    modelled as it computes:
    \<^item> pairwise-complete observations (\<open>pair_obs\<close>);
    \<^item> Welford's online update of means, sums of squares and co-moment
      (\<open>welford_step\<close>, folded by \<open>nancorr\<close>);
    \<^item> the lower triangle, mirrored (\<open>corr\<close>).
    \<open>pearson\<close> is the two-pass textbook definition it is proved to refine.
  \<^descr>[\<open>Dashboard\<close>] The script: \<open>run_script\<close> maps the upload, as
    \<open>None\<close>, a parse error or a frame, and the widget inputs to the ordered
    list of page elements. A raised exception ends the page with an error
    box, as Streamlit does; what was rendered before it stays
    (\<open>select_view\<close>: the column select box shown before the slider raises).
    \<open>page_top\<close>, \<open>controls_view\<close>, \<open>chart_section\<close>, \<open>corr_view\<close> and
    \<open>page_body\<close> are the sections of the script in source order.
    \<open>corr_view\<close> (line 88) raises \<open>ImportError\<close> for a non-empty matrix when
    matplotlib is not installed; whether it is, \<open>mpl\<close>, is a parameter of the
    run. \<open>run_app\<close> runs the script on the uploaded text through
    \<open>read_csv\<close>, and has no page (\<open>None\<close>) for a file pandas reads into a
    frame outside the model.

  \<^bold>\<open>What the lemmas show.\<close>
  \<^item> The filter (\<open>Sidebar\<close>): the filtered view is exactly the rows whose
    selected cell lies in the closed range. At the default range it is every
    non-missing row. It is a well-formed row subset with the same columns. It
    is monotone in the range. The slider's bounds are the least and greatest
    value of the selected column, they differ, and the range lies within
    them. The filtered column is numeric and is the user's pick when
    admissible. An all-NaN column filters out every row.
  \<^item> The page (\<open>Dashboard\<close>):
    \<^item> after a successful load the page shows an error exactly when the
      table has a numeric column and either the selected column holds one
      value only (the slider raises) or matplotlib is missing;
    \<^item> without a numeric column there are no controls and no chart, the
      filtered preview is the table itself, and the correlation matrix is
      empty;
    \<^item> the chart plots the chosen numeric column over the filtered rows;
    \<^item> the parser's error box appears exactly when \<open>read_csv\<close> raises,
      and then no part of a table is shown.
  \<^item> Reading the file (\<open>CsvTokenizer\<close>, \<open>CsvRead\<close>):
    \<^item> tokenizing what a CSV writer wrote gives the records back;
    \<^item> the one-step reading of a blank-led line equals the C parser's
      back-up and reread from \<open>START_FIELD\<close>;
    \<^item> a quote that is never closed is a parse error;
    \<^item> the mangling loop ends on every dictionary the outer loop builds and
      makes a name outside the header;
    \<^item> the column names are distinct, and distinct non-empty names are
      kept;
    \<^item> every frame \<open>read_csv\<close> returns is well formed;
    \<^item> the integer parser reads back every integer written in decimal,
      and a column of such int64 values is inferred int64 and holds exactly
      those integers.
  \<^item> The missing-value report (\<open>Missing\<close>): the metric is the number of NaN
    cells of the table. The success message appears exactly when there is
    none, and the listing holds exactly the columns with a positive count.
  \<^item> The summary (\<open>Stats\<close>): min \<open>\<le>\<close> q25 \<open>\<le>\<close> median \<open>\<le>\<close> q75
    \<open>\<le>\<close> max; the standard deviation is reported from two values on and is
    never negative.
  \<^item> The correlation (\<open>Corr\<close>): Welford's update keeps the raw-sum invariant
    (\<open>welford_inv\<close>), so the matrix equals the two-pass Pearson coefficient
    cell by cell, and the mirrored upper triangle is what \<open>nancorr\<close> gives for
    those pairs. Its diagonal is 1 or NaN, and every coefficient lies in
    \<open>[-1, 1]\<close> (Cauchy--Schwarz).
  \<^item> Across components (this theory): \<open>describe\<close> summarises exactly
    \<open>numeric_cols\<close>. Count plus missing count is the row count for every
    numeric column. The specification's end-to-end example, run through the
    whole script, gives the page it states (a lemma, \<open>spec_example_page\<close>).
  Every property with a hypothesis has a witness theorem that applies it at
  a concrete input. The inputs are the five-row table \<open>sample_frame\<close> (read
  from the specification's CSV text \<open>spec_csv\<close>), \<open>xy_frame\<close>, \<open>nan_frame\<close>,
  \<open>obj_frame\<close>, \<open>const_frame\<close>, short CSV texts, or small records and
  headers. The definitions are evaluated by \<open>simp\<close>, or by \<open>code_simp\<close> for a
  whole \<open>read_csv\<close> run or a header.

  \<^bold>\<open>Bounds and fuel.\<close> One loop of the program has no evident bound:
  the \<open>while cur_count > 0\<close> loop of the name mangling. It is
  \<open>partial_function (option)\<close>, and its return is a theorem. The argument:
  every name with a count is in the header, an invariant of the outer loop;
  each round either moves \<open>cur_count\<close> past a suffixed name the header holds,
  of which there are finitely many (\<open>suffixed\<close> is injective), or reaches a
  name outside the header, whose count is \<open>0\<close>. Every other definition is
  structural recursion or a fold over a finite list, so no fuel is needed.

  \<^bold>\<open>Numbers.\<close> Floats are reals: pandas' float64 rounding is not
  modelled. The statistical identities therefore hold exactly, and a decimal
  field is read as its exact value. Claims that rounding falsifies are not
  made: the float64 mean of \<open>[0.1, 0.1, 0.1]\<close> exceeds its maximum and its
  standard deviation is not \<open>0\<close>, so neither "the mean lies between min and
  max" nor "the standard deviation is zero exactly for a constant column" is
  stated; the properties of \<open>Stats\<close> and \<open>Corr\<close> are the exact-arithmetic
  behaviour of the routines pandas runs.

  \<^bold>\<open>Not modelled.\<close>
  \<^item> Reading the upload:
    \<^item> the bytes are taken as already decoded text: encodings and a
      byte-order mark are not modelled;
    \<^item> a file whose first data row is longer than the header makes pandas
      use the leading columns as the index, and a float column holding
      \<open>inf\<close> makes it store infinities; frames here have the labels
      \<open>0, 1, ...\<close> and real cells, so \<open>read_csv\<close> returns
      \<open>Unrepresentable\<close> for both and \<open>run_app\<close> has no page for them;
    \<^item> integers beyond int64 are read as float64 (pandas may choose
      uint64), and a float exponent beyond the float64 range is read as its
      exact value where pandas reports an overflow;
    \<^item> a blank-led line in a file with lone \<open>\r\<close> line ends is backed
      up to the start of the line, not past the \<open>\r\<close> as the C code does;
    \<^item> chunked reading with mixed types (\<open>low_memory\<close>) is not modelled.
  \<^item> Layout and styling: \<open>set_page_config\<close>, \<open>st.columns\<close>, and the colours
    of line 88 (its import of matplotlib is modelled).
  \<^item> The chart and table rendering themselves: elements carry the data
    they display.
  \<^item> Streamlit's widget keys and session state: the widget inputs are a
    parameter of each run.
  \<^item> A slider whose bounds are NaN (an all-NaN column) is taken to return
    the NaN bounds as its value: \<open>min_value == max_value\<close> is false for NaN,
    so Streamlit's equal-bounds check does not raise; the all-NaN-column
    property records what the filter then does.
\<close>

section \<open>Lemmas shared by the cross-component properties\<close>

lemma numeric_cols_idx:
  assumes "length (dtypes f) = length (columns f)"
  shows "numeric_cols f =
           map (\<lambda>j. columns f ! j) (filter (\<lambda>j. is_numeric_dtype (dtypes f ! j)) [0..<length (columns f)])"
proof -
  have "zip (columns f) (dtypes f) = map (\<lambda>j. (columns f ! j, dtypes f ! j)) [0..<length (columns f)]"
    by (rule nth_equalityI) (simp_all add: assms)
  then show ?thesis by (simp add: numeric_cols_def filter_map comp_def)
qed

lemma nums_of_plus_nulls:
  "\<forall>x\<in>set xs. (\<exists>v. x = CNum v) \<or> x = CNaN \<Longrightarrow>
     length (nums_of xs) + length (filter is_null xs) = length xs"
  by (induction xs rule: nums_of.induct) auto

lemma numeric_column_cells:
  assumes "wf_frame f" and "j < length (columns f)" and "is_numeric_dtype (dtypes f ! j)"
  shows "\<forall>x\<in>set (column_values f j). (\<exists>v. x = CNum v) \<or> x = CNaN"
proof
  fix x assume "x \<in> set (column_values f j)"
  then obtain i r where ir: "(i, r) \<in> set (rows f)" and x: "x = r ! j"
    by (auto simp: column_values_def)
  from assms(1) ir assms(2) have "cell_conforms (dtypes f ! j) (r ! j)" by (rule wf_frame_cell)
  with assms(3) x show "(\<exists>v. x = CNum v) \<or> x = CNaN" by (simp add: numeric_cell_cases)
qed

lemma set_describe_numeric:
  assumes "describe f = NumericSummary ss" and "(c, s) \<in> set ss"
  obtains j where "j < length (columns f)" and "is_numeric_dtype (dtypes f ! j)"
    and "c = columns f ! j" and "s = describe_numeric (column_values f j)"
  using assms by (auto simp: describe_def Let_def split: if_splits)

lemma set_isnull_sum:
  assumes "(c, k) \<in> set (isnull_sum f)"
  obtains j where "j < length (columns f)" and "c = columns f ! j"
    and "k = length (filter is_null (column_values f j))"
  using assms by (auto simp: isnull_sum_def)

section \<open>Properties spanning components\<close>

text \<open>
  C23: \<open>df.describe()\<close> (line 40) summarises exactly the numeric
  columns, in table order, when the table has one; a table without numeric
  columns is not reported as empty but gets the categorical summary
  (count, unique, top, freq) of every column.
\<close>

theorem describe_dispatch:
  assumes "wf_frame f"
  shows "case describe f of
           NumericSummary ss \<Rightarrow> numeric_cols f \<noteq> [] \<and> map fst ss = numeric_cols f
         | ObjectSummary ss \<Rightarrow> numeric_cols f = [] \<and> map fst ss = columns f"
proof -
  from assms have len: "length (dtypes f) = length (columns f)" by (simp add: wf_frame_def)
  show ?thesis
    by (simp add: describe_def Let_def numeric_cols_idx [OF len] comp_def map_nth)
qed

theorem describe_dispatch_witness:
  "wf_frame obj_frame \<and> numeric_cols obj_frame = [] \<and>
   (\<exists>ss. describe obj_frame = ObjectSummary ss \<and> map fst ss = [''city''])"
proof -
  have wf: "wf_frame obj_frame" by (simp add: obj_frame_def wf_frame_def)
  have nc: "numeric_cols obj_frame = []" by (simp add: obj_frame_def numeric_cols_def)
  have cols: "columns obj_frame = [''city'']" by (simp add: obj_frame_def)
  from describe_dispatch [OF wf] nc cols wf show ?thesis
    by (cases "describe obj_frame") auto
qed

text \<open>
  C24: for every numeric column, the "count" row of the summary and the
  column's entry in the missing-value counts add up to the number of rows
  (the summary skips exactly the NaN cells the missing count counts).
\<close>

theorem describe_count_plus_missing:
  assumes "wf_frame f" and "describe f = NumericSummary ss" and "(c, s) \<in> set ss"
    and "(c, k) \<in> set (isnull_sum f)"
  shows "cnt s + k = length (rows f)"
proof -
  obtain j where j: "j < length (columns f)" and nj: "is_numeric_dtype (dtypes f ! j)"
    and c: "c = columns f ! j" and s: "s = describe_numeric (column_values f j)"
    using assms(2,3) by (rule set_describe_numeric)
  obtain j' where j': "j' < length (columns f)" and c': "c = columns f ! j'"
    and k: "k = length (filter is_null (column_values f j'))"
    using assms(4) by (rule set_isnull_sum)
  from assms(1) have "distinct (columns f)" by (simp add: wf_frame_def)
  with j j' c c' have "j' = j" by (simp add: nth_eq_iff_index_eq)
  with k have k: "k = length (filter is_null (column_values f j))" by simp
  have "length (nums_of (column_values f j)) + length (filter is_null (column_values f j)) =
          length (column_values f j)"
    by (rule nums_of_plus_nulls [OF numeric_column_cells [OF assms(1) j nj]])
  then show ?thesis by (simp add: s k column_values_def)
qed

theorem describe_count_plus_missing_witness:
  "wf_frame sample_frame \<and>
   describe sample_frame =
     NumericSummary [(''x'', describe_numeric (column_values sample_frame 0)),
                     (''y'', describe_numeric (column_values sample_frame 1))] \<and>
   (''y'', 1) \<in> set (isnull_sum sample_frame) \<and>
   cnt (describe_numeric (column_values sample_frame 1)) + 1 = 5"
proof -
  have cols: "columns sample_frame = [''x'', ''y'', ''name'']" by (simp add: sample_frame_def)
  have dts: "dtypes sample_frame = [Int64, Float64, ObjectD]" by (simp add: sample_frame_def)
  have d: "describe sample_frame =
     NumericSummary [(''x'', describe_numeric (column_values sample_frame 0)),
                     (''y'', describe_numeric (column_values sample_frame 1))]"
    by (simp add: describe_def Let_def cols dts upt_conv_Cons)
  have y: "(''y'', 1) \<in> set (isnull_sum sample_frame)"
    by (simp add: isnull_sum_def column_values_def sample_frame_def upt_conv_Cons)
  have "cnt (describe_numeric (column_values sample_frame 1)) + 1 = length (rows sample_frame)"
    by (rule describe_count_plus_missing [OF wf_sample_frame d _ y]) simp
  then show ?thesis using wf_sample_frame d y by (simp add: sample_frame_def)
qed

section \<open>The specification's example\<close>

text \<open>
  The end-to-end example of the specification, run through the whole
  script with matplotlib installed: on the five-row table with \<open>x = 1..5\<close> and one missing
  \<open>y\<close>, with the sidebar on \<open>x\<close> and the slider at \<open>[2, 4]\<close>, the page
  reports 5 rows, 3 columns and 1 missing cell (all in \<open>y\<close>), the slider
  spans \<open>[1, 5]\<close>, the filtered view holds exactly the rows with
  \<open>x \<in> {2, 3, 4}\<close>, the chart plots \<open>x\<close> over those rows and the
  correlation matrix is the one of \<open>x\<close> and \<open>y\<close>.
\<close>

lemma spec_example_page:
  "run_script True (Some (Inr sample_frame)) demo_ui =
     [Title, Intro, Uploader,
      Subheader DataPreview, FrameView sample_frame,
      Subheader DatasetInfo, Metric Rows 5, Metric Columns 3, Metric MissingCells 1,
      Subheader MissingValues, MissingListing [(''y'', 1)],
      Subheader SummaryStatistics, SummaryView (describe sample_frame),
      SidebarHeader,
      ColumnSelect [''x'', ''y''] ''x'', RangeSlider (Some 1) (Some 5) (Some 2, Some 4),
      Subheader FilteredData,
      FrameView \<lparr>columns = [''x'', ''y'', ''name''], dtypes = [Int64, Float64, ObjectD],
                 rows = [(1, [CNum 2, CNum 4, CStr ''b'']), (2, [CNum 3, CNaN, CStr ''c'']),
                         (3, [CNum 4, CNum 8, CStr ''d''])]\<rparr>,
      Subheader ColumnVisualization,
      ChartSelect [''x'', ''y''] ''x'', LineChart [(1, CNum 2), (2, CNum 3), (3, CNum 4)],
      Subheader CorrelationMatrix, CorrView (corr xy_frame)]"
proof -
  define fdf where "fdf = bool_index sample_frame [False, True, True, True, False]"
  have sf: "sidebar_filter sample_frame demo_ui =
     Inr (Some \<lparr>sel_col = ''x'', min_val = Some 1, max_val = Some 5, sel_range = (Some 2, Some 4)\<rparr>, fdf)"
    unfolding fdf_def by (simp add: frame_simps demo_ui_def)
  have ch: "chart_section sample_frame fdf demo_ui =
     Inr [ChartSelect [''x'', ''y''] ''x'', LineChart [(1, CNum 2), (2, CNum 3), (3, CNum 4)]]"
    unfolding fdf_def by (simp add: chart_section_def frame_simps demo_ui_def)
  have m: "corr_columns sample_frame (numeric_cols sample_frame) = Inr (corr xy_frame)"
    by (simp add: corr_columns_def frame_simps select_columns_def)
  have top: "page_top sample_frame =
     [Subheader DataPreview, FrameView sample_frame,
      Subheader DatasetInfo, Metric Rows 5, Metric Columns 3, Metric MissingCells 1,
      Subheader MissingValues, MissingListing [(''y'', 1)],
      Subheader SummaryStatistics, SummaryView (describe sample_frame)]"
    by (simp add: page_top_def frame_simps upt_conv_Cons head_def shape_def)
  have hd: "head 5 fdf =
     \<lparr>columns = [''x'', ''y'', ''name''], dtypes = [Int64, Float64, ObjectD],
      rows = [(1, [CNum 2, CNum 4, CStr ''b'']), (2, [CNum 3, CNaN, CStr ''c'']),
              (3, [CNum 4, CNum 8, CStr ''d''])]\<rparr>"
    unfolding fdf_def by (simp add: head_def bool_index_def sample_frame_def)
  have nc: "numeric_cols sample_frame = [''x'', ''y'']"
    by (simp add: numeric_cols_def sample_frame_def)
  have cv: "corr_view True (corr xy_frame) = CorrView (corr xy_frame)" by (simp add: corr_view_def)
  show ?thesis
    by (simp only: nc run_script_def page_body_eval [OF sf ch m] top hd controls_view_def cv
                   option.case sum.case controls.simps append_Cons append_Nil)
qed

end
